theory Spec2Isabelle
  imports Complex_Main "HOL-Library.Multiset"
begin

section \<open>The look-ahead music scheduler (src/utils/audioUtils.ts)\<close>

text \<open>
  JavaScript numbers are modelled as exact reals: every sum and product below is the
  mathematical one, without the rounding of IEEE doubles. The audio clock
  \<open>ctx.currentTime\<close> is owned by the host, so each entry point takes the clock reading
  \<open>now\<close> it sees as an argument (one reading per synchronous call).
\<close>

subsection \<open>Score data\<close>

type_synonym NoteEvent = "string option \<times> real"

definition NOTES :: "(string \<times> real) list" where
  "NOTES =
    [(''C4'', 261.63), (''D4'', 293.66), (''E4'', 329.63), (''F4'', 349.23), (''G4'', 392.00),
     (''A4'', 440.00), (''B4'', 493.88),
     (''C5'', 523.25), (''D5'', 587.33), (''E5'', 659.25), (''F5'', 698.46), (''G5'', 783.99)]"

definition JINGLE_BELLS :: "NoteEvent list" where
  "JINGLE_BELLS =
    [(Some ''E5'', 1), (Some ''E5'', 1), (Some ''E5'', 2), (Some ''E5'', 1), (Some ''E5'', 1),
     (Some ''E5'', 2),
     (Some ''E5'', 1), (Some ''G5'', 1), (Some ''C5'', 1.5), (Some ''D5'', 0.5), (Some ''E5'', 4)]"

definition DISNEY_THEME :: "NoteEvent list" where
  "DISNEY_THEME =
    [(Some ''C4'', 0.25), (Some ''E4'', 0.25), (Some ''G4'', 0.25), (Some ''C5'', 0.25),
     (Some ''E5'', 0.25), (Some ''G5'', 0.25), (Some ''C6'', 0.5), (None, 0.5),
     (Some ''G5'', 1), (Some ''E5'', 0.5), (Some ''F5'', 0.5), (Some ''G5'', 2),
     (Some ''A5'', 0.5), (Some ''G5'', 0.5), (Some ''F5'', 0.5), (Some ''E5'', 0.5),
     (Some ''D5'', 2),
     (Some ''E5'', 0.5), (Some ''F5'', 0.5), (Some ''G5'', 1), (Some ''C5'', 1),
     (Some ''A5'', 1.5), (Some ''G5'', 0.5), (Some ''C6'', 2)]"

text \<open>The object spread puts the four new keys after those of \<open>NOTES\<close>; a later key
  overrides an earlier one, so the new entries are looked up first.\<close>

definition DISNEY_NOTES :: "(string \<times> real) list" where
  "DISNEY_NOTES =
    [(''C6'', 1046.50), (''G5'', 783.99), (''A5'', 880.00), (''F5'', 698.46)] @ NOTES"

definition TEMPO :: real where
  "TEMPO = 140"

definition SECONDS_PER_BEAT :: real where
  "SECONDS_PER_BEAT = 60 / TEMPO"

definition LOOKAHEAD :: real where
  "LOOKAHEAD = 0.1"

definition SCHEDULE_AHEAD_TIME :: real where
  "SCHEDULE_AHEAD_TIME = 0.1"

subsection \<open>Module state and the host's timers\<close>

datatype timbre = bell | orchestra

datatype waveform = triangle | sine

text \<open>An automation event of a gain parameter: target value and time.\<close>

datatype ramp = setValueAtTime real real
  | linearRampToValueAtTime real real
  | exponentialRampToValueAtTime real real

text \<open>An oscillator node connected through its gain node to the destination.\<close>

record oscillator =
  oscType :: waveform
  frequency :: real
  gain :: "ramp list"
  startAt :: real
  stopAt :: real

text \<open>The callbacks handed to \<open>window.setTimeout\<close>.\<close>

datatype callback = treeCallback | castleCallback

text \<open>One invocation of \<open>scheduleNote\<close>, as the scheduler made it.\<close>

record noteCall =
  callNote :: "string option"
  callDuration :: real
  callTime :: real
  callType :: timbre

text \<open>
  The module-level variables (\<open>audioCtx\<close> is \<open>True\<close> once the context exists), followed by
  what the host holds: the pending timeouts with the last handle it issued, the
  oscillators started so far, and the log of \<open>scheduleNote\<close> invocations.
\<close>

record audio =
  audioCtx :: bool
  musicScheduler :: "nat option"
  castleMusicScheduler :: "nat option"
  nextNoteTime :: real
  scoreIndex :: nat
  timers :: "(nat \<times> callback) list"
  lastHandle :: nat
  oscillators :: "oscillator list"
  calls :: "noteCall list"

datatype error = TypeError

definition initial :: audio where
  "initial = \<lparr> audioCtx = False, musicScheduler = None, castleMusicScheduler = None,
     nextNoteTime = 0, scoreIndex = 0, timers = [], lastHandle = 0,
     oscillators = [], calls = [] \<rparr>"

text \<open>The context's own state (suspended or running) is not modelled, so \<open>ctx.resume()\<close>
  changes nothing here.\<close>

definition getCtx :: "audio \<Rightarrow> audio" where
  "getCtx s = (if \<not> audioCtx s then s\<lparr>audioCtx := True\<rparr> else s)"

text \<open>\<open>setTimeout\<close> returns a fresh positive handle and queues the callback.\<close>

definition setTimeout :: "callback \<Rightarrow> audio \<Rightarrow> nat \<times> audio" where
  "setTimeout cb s =
     (let h = Suc (lastHandle s)
      in (h, s\<lparr>timers := timers s @ [(h, cb)], lastHandle := h\<rparr>))"

definition clearTimeout :: "nat \<Rightarrow> audio \<Rightarrow> audio" where
  "clearTimeout h s = s\<lparr>timers := filter (\<lambda>t. fst t \<noteq> h) (timers s)\<rparr>"

subsection \<open>scheduleNote\<close>

text \<open>\<open>TABLE[note] || 440\<close>: a missing key and a zero both fall back to 440.\<close>

definition lookupFrequency :: "(string \<times> real) list \<Rightarrow> string \<Rightarrow> real" where
  "lookupFrequency table note =
     (case map_of table note of
        None \<Rightarrow> 440
      | Some f \<Rightarrow> if f = 0 then 440 else f)"

definition scheduleNote :: "string option \<Rightarrow> real \<Rightarrow> real \<Rightarrow> timbre \<Rightarrow> audio \<Rightarrow> audio" where
  "scheduleNote note duration time type s =
     (if \<not> audioCtx s then s
      else case note of
        None \<Rightarrow> s
      | Some name \<Rightarrow>
          if name = [] then s
          else (case type of
            bell \<Rightarrow>
              s\<lparr>oscillators := oscillators s @
                [\<lparr> oscType = triangle,
                   frequency = lookupFrequency NOTES name,
                   gain = [setValueAtTime 0 time,
                           linearRampToValueAtTime 0.15 (time + 0.05),
                           linearRampToValueAtTime 0 (time + duration * SECONDS_PER_BEAT)],
                   startAt = time,
                   stopAt = time + duration * SECONDS_PER_BEAT + 1 \<rparr>]\<rparr>
          | orchestra \<Rightarrow>
              s\<lparr>oscillators := oscillators s @
                [\<lparr> oscType = triangle,
                   frequency = lookupFrequency DISNEY_NOTES name,
                   gain = [setValueAtTime 0 time,
                           linearRampToValueAtTime 0.05 (time + 0.1),
                           linearRampToValueAtTime 0 (time + duration * SECONDS_PER_BEAT)],
                   startAt = time,
                   stopAt = time + duration * SECONDS_PER_BEAT + 1 \<rparr>,
                 \<lparr> oscType = sine,
                   frequency = lookupFrequency DISNEY_NOTES name,
                   gain = [setValueAtTime 0 time,
                           linearRampToValueAtTime 0.1 (time + 0.1),
                           exponentialRampToValueAtTime 0.001
                             (time + duration * SECONDS_PER_BEAT + 0.5)],
                   startAt = time,
                   stopAt = time + duration * SECONDS_PER_BEAT + 1 \<rparr>]\<rparr>))"

subsection \<open>The scheduler loops\<close>

text \<open>
  \<open>treeScheduler\<close> and \<open>castleScheduler\<close> run the same loop on their own score and timbre.
  \<open>scheduleStep\<close> is one pass through the loop body: hand the event at \<open>scoreIndex\<close> to
  \<open>scheduleNote\<close> (logged in \<open>calls\<close>), advance the cursor, advance the index.
\<close>

definition scheduleStep :: "NoteEvent list \<Rightarrow> timbre \<Rightarrow> audio \<Rightarrow> audio" where
  "scheduleStep score type s =
     (let (note, duration) = score ! scoreIndex s;
          s1 = scheduleNote note duration (nextNoteTime s) type s;
          s2 = s1\<lparr>calls := calls s1 @
                 [\<lparr> callNote = note, callDuration = duration,
                    callTime = nextNoteTime s, callType = type \<rparr>]\<rparr>;
          s3 = s2\<lparr>nextNoteTime := nextNoteTime s2 + duration * SECONDS_PER_BEAT\<rparr>
      in s3\<lparr>scoreIndex := (scoreIndex s3 + 1) mod length score\<rparr>)"

text \<open>
  The \<open>while\<close> loop. It need not end (a score of zero durations never leaves it), so the
  result is an option: \<open>None\<close> is a loop that never returns. Destructuring an index outside
  the score throws a \<open>TypeError\<close>.
\<close>

partial_function (option) schedulerLoop ::
  "NoteEvent list \<Rightarrow> timbre \<Rightarrow> real \<Rightarrow> audio \<Rightarrow> (error + audio) option" where
  "schedulerLoop score type now s =
     (if nextNoteTime s < now + SCHEDULE_AHEAD_TIME
      then (if scoreIndex s < length score
            then schedulerLoop score type now (scheduleStep score type s)
            else Some (Inl TypeError))
      else Some (Inr s))"

definition treeScheduler :: "real \<Rightarrow> audio \<Rightarrow> (error + audio) option" where
  "treeScheduler now s =
     (if \<not> audioCtx s then Some (Inr s)
      else case schedulerLoop JINGLE_BELLS bell now s of
        None \<Rightarrow> None
      | Some (Inl e) \<Rightarrow> Some (Inl e)
      | Some (Inr s1) \<Rightarrow>
          (let (h, s2) = setTimeout treeCallback s1
           in Some (Inr (s2\<lparr>musicScheduler := Some h\<rparr>))))"

definition castleScheduler :: "real \<Rightarrow> audio \<Rightarrow> (error + audio) option" where
  "castleScheduler now s =
     (if \<not> audioCtx s then Some (Inr s)
      else case schedulerLoop DISNEY_THEME orchestra now s of
        None \<Rightarrow> None
      | Some (Inl e) \<Rightarrow> Some (Inl e)
      | Some (Inr s1) \<Rightarrow>
          (let (h, s2) = setTimeout castleCallback s1
           in Some (Inr (s2\<lparr>castleMusicScheduler := Some h\<rparr>))))"

subsection \<open>The exported toggles\<close>

definition toggleChristmasMusic :: "bool \<Rightarrow> real \<Rightarrow> audio \<Rightarrow> (error + audio) option" where
  "toggleChristmasMusic shouldPlay now s0 =
     (let s = getCtx s0
      in if shouldPlay
         then (if musicScheduler s = None \<and> castleMusicScheduler s = None
               then treeScheduler now (s\<lparr>nextNoteTime := now + 0.1, scoreIndex := 0\<rparr>)
               else Some (Inr s))
         else (case musicScheduler s of
                 Some h \<Rightarrow> Some (Inr ((clearTimeout h s)\<lparr>musicScheduler := None\<rparr>))
               | None \<Rightarrow> Some (Inr s)))"

definition toggleDisneyMusic :: "bool \<Rightarrow> real \<Rightarrow> audio \<Rightarrow> (error + audio) option" where
  "toggleDisneyMusic shouldPlay now s0 =
     (let s = getCtx s0
      in if shouldPlay
         then (if castleMusicScheduler s = None \<and> musicScheduler s = None
               then castleScheduler now (s\<lparr>nextNoteTime := now + 0.1, scoreIndex := 0\<rparr>)
               else Some (Inr s))
         else (case castleMusicScheduler s of
                 Some h \<Rightarrow> Some (Inr ((clearTimeout h s)\<lparr>castleMusicScheduler := None\<rparr>))
               | None \<Rightarrow> Some (Inr s)))"

subsection \<open>Runs: toggles from the UI and timeouts fired by the host\<close>

text \<open>
  The host fires a pending timeout by removing it from its queue and calling the
  callback; \<open>timerFires\<close> takes the oldest pending one, at the clock reading \<open>now\<close>.
\<close>

definition timerFires :: "real \<Rightarrow> audio \<Rightarrow> (error + audio) option" where
  "timerFires now s =
     (case timers s of
        [] \<Rightarrow> Some (Inr s)
      | (h, cb) # rest \<Rightarrow>
          (case cb of
             treeCallback \<Rightarrow> treeScheduler now (s\<lparr>timers := rest\<rparr>)
           | castleCallback \<Rightarrow> castleScheduler now (s\<lparr>timers := rest\<rparr>)))"

text \<open>
  \<open>SoundEffect\<close> is a call of \<open>playEngineSound\<close>, \<open>playFireworkSound\<close> or \<open>playBellSound\<close>: of
  the module variables they touch \<open>audioCtx\<close> only (their own nodes are not recorded).
\<close>

datatype event = ChristmasMusic bool real | DisneyMusic bool real | TimerFires real
  | SoundEffect

fun exec :: "event \<Rightarrow> audio \<Rightarrow> (error + audio) option" where
  "exec (ChristmasMusic shouldPlay now) s = toggleChristmasMusic shouldPlay now s"
| "exec (DisneyMusic shouldPlay now) s = toggleDisneyMusic shouldPlay now s"
| "exec (TimerFires now) s = timerFires now s"
| "exec SoundEffect s = Some (Inr (getCtx s))"

fun run :: "event list \<Rightarrow> audio \<Rightarrow> (error + audio) option" where
  "run [] s = Some (Inr s)"
| "run (e # es) s =
     (case exec e s of
        None \<Rightarrow> None
      | Some (Inl err) \<Rightarrow> Some (Inl err)
      | Some (Inr s1) \<Rightarrow> run es s1)"

subsection \<open>Vocabulary for statements about the scheduler\<close>

text \<open>
  The start time the specification gives the \<open>k\<close>-th note of a playback whose cursor
  started at \<open>t0\<close>: \<open>t0\<close> plus the summed durations of the notes before it, converted at
  60/140 seconds per beat. The score is cyclic.
\<close>

definition startTime :: "NoteEvent list \<Rightarrow> real \<Rightarrow> nat \<Rightarrow> real" where
  "startTime score t0 k =
     t0 + sum_list (map (\<lambda>j. snd (score ! (j mod length score))) [0..<k]) * (60 / 140)"

definition nthCall :: "NoteEvent list \<Rightarrow> timbre \<Rightarrow> real \<Rightarrow> nat \<Rightarrow> noteCall" where
  "nthCall score type t0 k =
     \<lparr> callNote = fst (score ! (k mod length score)),
       callDuration = snd (score ! (k mod length score)),
       callTime = startTime score t0 k,
       callType = type \<rparr>"

text \<open>A playback that began at cursor \<open>t0\<close> with log \<open>c0\<close> and has handed over \<open>n\<close> notes.\<close>

definition playedTo :: "NoteEvent list \<Rightarrow> timbre \<Rightarrow> real \<Rightarrow> noteCall list \<Rightarrow> nat \<Rightarrow> audio \<Rightarrow> bool" where
  "playedTo score type t0 c0 n s \<longleftrightarrow>
     calls s = c0 @ map (nthCall score type t0) [0..<n] \<and>
     scoreIndex s = n mod length score \<and>
     nextNoteTime s = startTime score t0 n"

definition wellFormed :: "NoteEvent list \<Rightarrow> bool" where
  "wellFormed score \<longleftrightarrow> score \<noteq> [] \<and> list_all (\<lambda>e. 0 < snd e) score"

datatype melody = Christmas | Disney

definition scoreOf :: "melody \<Rightarrow> NoteEvent list" where
  "scoreOf m = (case m of Christmas \<Rightarrow> JINGLE_BELLS | Disney \<Rightarrow> DISNEY_THEME)"

definition timbreOf :: "melody \<Rightarrow> timbre" where
  "timbreOf m = (case m of Christmas \<Rightarrow> bell | Disney \<Rightarrow> orchestra)"

definition toggle :: "melody \<Rightarrow> bool \<Rightarrow> real \<Rightarrow> event" where
  "toggle m shouldPlay now =
     (case m of Christmas \<Rightarrow> ChristmasMusic shouldPlay now | Disney \<Rightarrow> DisneyMusic shouldPlay now)"

definition scheduler :: "melody \<Rightarrow> real \<Rightarrow> audio \<Rightarrow> (error + audio) option" where
  "scheduler m = (case m of Christmas \<Rightarrow> treeScheduler | Disney \<Rightarrow> castleScheduler)"

definition handle :: "melody \<Rightarrow> audio \<Rightarrow> nat option" where
  "handle m s = (case m of Christmas \<Rightarrow> musicScheduler s | Disney \<Rightarrow> castleMusicScheduler s)"

definition callbackOf :: "melody \<Rightarrow> callback" where
  "callbackOf m = (case m of Christmas \<Rightarrow> treeCallback | Disney \<Rightarrow> castleCallback)"

text \<open>
  The shape of every state a run can reach: nothing plays and no timeout is pending, or
  exactly one melody plays, its handle names the only pending timeout, and its playback
  follows its score.
\<close>

definition playsFrom :: "melody \<Rightarrow> real \<Rightarrow> noteCall list \<Rightarrow> nat \<Rightarrow> audio \<Rightarrow> bool" where
  "playsFrom m t0 c0 n s \<longleftrightarrow>
     (\<exists>h. musicScheduler s = (if m = Christmas then Some h else None) \<and>
        castleMusicScheduler s = (if m = Disney then Some h else None) \<and>
        timers s = [(h, callbackOf m)]) \<and>
     audioCtx s \<and> playedTo (scoreOf m) (timbreOf m) t0 c0 n s"

definition plays :: "melody \<Rightarrow> audio \<Rightarrow> bool" where
  "plays m s \<longleftrightarrow> (\<exists>t0 c0 n. playsFrom m t0 c0 n s)"

definition silent :: "audio \<Rightarrow> bool" where
  "silent s \<longleftrightarrow> musicScheduler s = None \<and> castleMusicScheduler s = None \<and> timers s = []"

definition consistent :: "audio \<Rightarrow> bool" where
  "consistent s \<longleftrightarrow> silent s \<or> plays Christmas s \<or> plays Disney s"

text \<open>
  The notes that a timeout firing at clock reading \<open>now\<close> hands to the synthesizer, and
  those among them whose start time has already passed.
\<close>

definition handedOver :: "real \<Rightarrow> audio \<Rightarrow> noteCall list" where
  "handedOver now s =
     (case timerFires now s of
        Some (Inr s1) \<Rightarrow> drop (length (calls s)) (calls s1)
      | _ \<Rightarrow> [])"

definition lateHandovers :: "real \<Rightarrow> audio \<Rightarrow> noteCall list" where
  "lateHandovers now s = filter (\<lambda>c. callTime c < now) (handedOver now s)"

section \<open>The car scene (CastleScene in src/unnamed/part_000)\<close>

text \<open>
  The component keeps its animation state in refs; the model passes it as a record.
  \<open>Math.sin\<close> and \<open>Math.cos\<close> are the real functions, and the values of \<open>Math.random()\<close>
  that a frame consumes are an argument of \<open>render\<close>.
\<close>

subsection \<open>Types\<close>

datatype part = body | door_left | door_right | wheel | light_front | light_rear
  | glass | balloon | string

text \<open>The jittered coordinates \<open>x\<close>, \<open>y\<close>, \<open>z\<close> of the source are \<open>jitterX\<close>, \<open>jitterY\<close>,
  \<open>jitterZ\<close> here; \<open>nx\<close>, \<open>ny\<close>, \<open>nz\<close> are the base coordinates the renderer reads.\<close>

record Point3D =
  jitterX :: real
  jitterY :: real
  jitterZ :: real
  baseColor :: string
  part :: part
  nx :: real
  ny :: real
  nz :: real
  sparkleOffset :: real

record Particle =
  particleX :: real
  particleY :: real
  particleZ :: real
  vx :: real
  vy :: real
  vz :: real
  life :: real
  maxLife :: real
  color :: string
  scale :: real

record Bounds =
  minX :: real
  maxX :: real
  minY :: real
  maxY :: real

record HitBounds =
  leftDoor :: Bounds
  rightDoor :: Bounds
  car :: Bounds

record Scene =
  angleRef :: real
  hoverYRef :: real
  morphRef :: real
  targetLeftDoor :: real
  targetRightDoor :: real
  valLeftDoor :: real
  valRightDoor :: real
  particlesRef :: "Particle list"
  timeRef :: real
  wheelRotationRef :: real
  boundsRef :: HitBounds

text \<open>An entry of \<open>renderList\<close>: a car point or a heart particle, in world coordinates.\<close>

datatype renderItem =
    point (itemX: real) (itemY: real) (itemZ: real) (itemColor: string)
      (itemSparkle: real) (itemPart: part)
  | heart (itemX: real) (itemY: real) (itemZ: real) (itemColor: string)
      (itemLife: real) (itemScale: real)

definition emptyBounds :: Bounds where
  "emptyBounds = \<lparr> minX = 10000, maxX = - 10000, minY = 10000, maxY = - 10000 \<rparr>"

definition resetBounds :: HitBounds where
  "resetBounds = \<lparr> leftDoor = emptyBounds, rightDoor = emptyBounds, car = emptyBounds \<rparr>"

definition initialScene :: Scene where
  "initialScene = \<lparr> angleRef = pi / 4, hoverYRef = 0, morphRef = 0,
     targetLeftDoor = 0, targetRightDoor = 0, valLeftDoor = 0, valRightDoor = 0,
     particlesRef = [], timeRef = 0, wheelRotationRef = 0, boundsRef = resetBounds \<rparr>"

subsection \<open>handleClick\<close>

text \<open>
  \<open>x\<close> and \<open>y\<close> are the click coordinates already scaled to the 800 by 700 canvas. The
  outcome records the scene after the click and whether \<open>e.stopPropagation()\<close> and
  \<open>playEngineSound()\<close> were called.
\<close>

record ClickOutcome =
  afterClick :: Scene
  stopPropagation :: bool
  engineSound :: bool

definition handleClick :: "bool \<Rightarrow> real \<Rightarrow> real \<Rightarrow> Scene \<Rightarrow> ClickOutcome" where
  "handleClick isLightsOn x y s =
     (let margin = 20;
          b = boundsRef s;
          inLeft = (x \<ge> minX (leftDoor b) - margin \<and> x \<le> maxX (leftDoor b) + margin \<and>
                    y \<ge> minY (leftDoor b) - margin \<and> y \<le> maxY (leftDoor b) + margin);
          inRight = (x \<ge> minX (rightDoor b) - margin \<and> x \<le> maxX (rightDoor b) + margin \<and>
                     y \<ge> minY (rightDoor b) - margin \<and> y \<le> maxY (rightDoor b) + margin);
          stop = (inLeft \<or> inRight)
      in if inLeft
         then \<lparr> afterClick =
                  (if \<not> isLightsOn
                   then s\<lparr>targetLeftDoor := (if targetLeftDoor s > 0.5 then 0 else 1)\<rparr>
                   else s),
                stopPropagation = stop, engineSound = False \<rparr>
         else if inRight
         then \<lparr> afterClick =
                  (if \<not> isLightsOn
                   then s\<lparr>targetRightDoor := (if targetRightDoor s > 0.5 then 0 else 1)\<rparr>
                   else s),
                stopPropagation = stop, engineSound = False \<rparr>
         else (let inCar = (x \<ge> minX (car b) \<and> x \<le> maxX (car b) \<and>
                            y \<ge> minY (car b) \<and> y \<le> maxY (car b))
               in \<lparr> afterClick = s, stopPropagation = stop, engineSound = inCar \<rparr>))"

subsection \<open>render: animation state\<close>

text \<open>Lines 460 to 501: the smoothed scalars, the wheel, the rotation, the bounds reset.\<close>

definition animate :: "bool \<Rightarrow> Scene \<Rightarrow> Scene" where
  "animate isLightsOn s =
     (let targetY = (if isLightsOn then 140 else 0);
          targetMorph = (if isLightsOn then 1 else 0);
          tLeft = (if isLightsOn then 0 else targetLeftDoor s);
          tRight = (if isLightsOn then 0 else targetRightDoor s)
      in s\<lparr> timeRef := timeRef s + 0.02,
            hoverYRef := hoverYRef s + (targetY - hoverYRef s) * 0.05,
            morphRef := morphRef s + (targetMorph - morphRef s) * 0.05,
            valLeftDoor := valLeftDoor s + (tLeft - valLeftDoor s) * 0.1,
            valRightDoor := valRightDoor s + (tRight - valRightDoor s) * 0.1,
            wheelRotationRef := (if isLightsOn then wheelRotationRef s + 0.3 else 0),
            angleRef := angleRef s + 0.005,
            boundsRef := resetBounds \<rparr>)"

subsection \<open>render: particles\<close>

text \<open>The seven values of \<open>Math.random()\<close> a lights-on frame draws, in call order.\<close>

record ExhaustDraws =
  spawnDraw :: real
  zDraw :: real
  vxDraw :: real
  vyDraw :: real
  vzDraw :: real
  colorDraw :: real
  scaleDraw :: real

definition spawnExhaust :: "bool \<Rightarrow> ExhaustDraws \<Rightarrow> Scene \<Rightarrow> Scene" where
  "spawnExhaust isLightsOn r s =
     (if isLightsOn \<and> spawnDraw r > 0.3
      then s\<lparr>particlesRef := particlesRef s @
             [\<lparr> particleX = - 110, particleY = 30, particleZ = (zDraw r - 0.5) * 60,
                vx = - 6 - vxDraw r * 5, vy = (vyDraw r - 0.5) * 2, vz = (vzDraw r - 0.5) * 3,
                life = 1.0, maxLife = 1.0,
                color = (if colorDraw r > 0.5 then ''#f472b6'' else ''#fbcfe8''),
                scale = 0.5 + scaleDraw r * 0.5 \<rparr>]\<rparr>
      else s)"

definition updateParticles :: "Scene \<Rightarrow> Scene" where
  "updateParticles s =
     s\<lparr>particlesRef :=
         filter (\<lambda>p. life p > 0)
           (map (\<lambda>p. p\<lparr> particleX := particleX p + vx p, particleY := particleY p + vy p,
                         particleZ := particleZ p + vz p, life := life p - 0.02 \<rparr>)
              (particlesRef s))\<rparr>"

subsection \<open>render: one car point\<close>

type_synonym vec = "real \<times> real \<times> real"

text \<open>Lines 553 to 558: scale towards the cabin centre (0, 50, 0).\<close>

fun scaleTowardsCentre :: "real \<Rightarrow> vec \<Rightarrow> vec" where
  "scaleTowardsCentre scaleMult (px, py, pz) =
     (0 + (px - 0) * scaleMult, 50 + (py - 50) * scaleMult, 0 + (pz - 0) * scaleMult)"

text \<open>Lines 539 to 558: the morph; \<open>None\<close> is the \<open>continue\<close> that drops the point.\<close>

definition morphPoint :: "real \<Rightarrow> part \<Rightarrow> vec \<Rightarrow> vec option" where
  "morphPoint morph p v =
     (if p = glass
      then (if 1 - morph < 0.05 then None else Some (scaleTowardsCentre (1 - morph) v))
      else if p = balloon \<or> p = string
      then (if morph < 0.05 then None else Some (scaleTowardsCentre morph v))
      else Some v)"

text \<open>Lines 560 to 565: the string sways.\<close>

fun swayString :: "real \<Rightarrow> real \<Rightarrow> part \<Rightarrow> vec \<Rightarrow> vec" where
  "swayString time morph p (px, py, pz) =
     (if p = string
      then (let hFactor = (py - 100) * 0.1
            in (px + sin (time * 2 + hFactor) * 2 * morph, py, pz))
      else (px, py, pz))"

text \<open>Lines 567 to 578: a wheel point turns about its wheel's centre.\<close>

fun spinWheel :: "real \<Rightarrow> part \<Rightarrow> vec \<Rightarrow> vec" where
  "spinWheel wheelRotation p (px, py, pz) =
     (if p = wheel
      then (let cx = (if px > 0 then 65 else - 65);
                cy = 18;
                rx = px - cx;
                ry = py - cy;
                wAng = - wheelRotation;
                rx2 = rx * cos wAng - ry * sin wAng;
                ry2 = rx * sin wAng + ry * cos wAng
            in (cx + rx2, cy + ry2, pz))
      else (px, py, pz))"

text \<open>Lines 580 to 611: a door point turns about its hinge and flares outwards.\<close>

fun swingDoor :: "real \<Rightarrow> real \<Rightarrow> part \<Rightarrow> vec \<Rightarrow> vec" where
  "swingDoor valLeft valRight p (px, py, pz) =
     (if p = door_left \<or> p = door_right
      then (let isRight = (p = door_right);
                dir = (if isRight then 1 else - 1);
                openVal = (if isRight then valRight else valLeft);
                pivotX = 50;
                pivotY = 20;
                pivotZ = 45 * dir;
                dx = px - pivotX;
                dy = py - pivotY;
                dz = pz - pivotZ;
                baseAngle = openVal * 1.3;
                totalAngle = - 1 * baseAngle;
                cosA = cos totalAngle;
                sinA = sin totalAngle;
                dx2 = dx * cosA - dy * sinA;
                dy2 = dx * sinA + dy * cosA;
                flare = (openVal * 15) * dir
            in (pivotX + dx2, pivotY + dy2, pivotZ + dz + flare))
      else (px, py, pz))"

text \<open>Lines 613 to 618: the bob, then rotation about the vertical axis and the hover.\<close>

fun toWorld :: "bool \<Rightarrow> Scene \<Rightarrow> vec \<Rightarrow> vec" where
  "toWorld isLightsOn s (px, py0, pz) =
     (let py = (if isLightsOn then py0 + sin (timeRef s * 3) * 3 else py0);
          wx = px * cos (angleRef s) - pz * sin (angleRef s);
          wz = px * sin (angleRef s) + pz * cos (angleRef s);
          wy = py + hoverYRef s
      in (wx, wy, wz))"

text \<open>Lines 630, 631 (and 634, 635, 639, 640): grow a box to hold a screen point.\<close>

definition expand :: "real \<Rightarrow> real \<Rightarrow> Bounds \<Rightarrow> Bounds" where
  "expand screenX screenY b =
     \<lparr> minX = min (minX b) screenX, maxX = max (maxX b) screenX,
       minY = min (minY b) screenY, maxY = max (maxY b) screenY \<rparr>"

text \<open>Lines 620 to 641: project, and update the hit-test boxes when in front of the camera.\<close>

fun hitTestUpdate :: "part \<Rightarrow> vec \<Rightarrow> HitBounds \<Rightarrow> HitBounds" where
  "hitTestUpdate p (wx, wy, wz) b =
     (let depth = 1000 - wz
      in if depth > 10
         then (let scale = 1000 / depth;
                   screenX = 400 + wx * scale;
                   screenY = 400 - wy * scale + 80;
                   b1 = (if p = door_left then b\<lparr>leftDoor := expand screenX screenY (leftDoor b)\<rparr>
                         else if p = door_right
                         then b\<lparr>rightDoor := expand screenX screenY (rightDoor b)\<rparr>
                         else b)
               in b1\<lparr>car := expand screenX screenY (car b1)\<rparr>)
         else b)"

text \<open>Lines 535 to 650: the body of the loop over \<open>carPoints\<close>.\<close>

definition carPointStep ::
  "bool \<Rightarrow> Scene \<Rightarrow> HitBounds \<times> renderItem list \<Rightarrow> Point3D \<Rightarrow> HitBounds \<times> renderItem list" where
  "carPointStep isLightsOn s acc p =
     (case morphPoint (morphRef s) (part p) (nx p, ny p, nz p) of
        None \<Rightarrow> acc
      | Some v1 \<Rightarrow>
          (let v2 = swayString (timeRef s) (morphRef s) (part p) v1;
               v3 = spinWheel (wheelRotationRef s) (part p) v2;
               v4 = swingDoor (valLeftDoor s) (valRightDoor s) (part p) v3;
               w = toWorld isLightsOn s v4
           in (hitTestUpdate (part p) w (fst acc),
               snd acc @ [point (fst w) (fst (snd w)) (snd (snd w)) (baseColor p)
                            (sparkleOffset p) (part p)])))"

text \<open>Lines 652 to 665: a particle in world coordinates.\<close>

definition particleItem :: "Scene \<Rightarrow> Particle \<Rightarrow> renderItem" where
  "particleItem s p =
     (let wx = particleX p * cos (angleRef s) - particleZ p * sin (angleRef s);
          wz = particleX p * sin (angleRef s) + particleZ p * cos (angleRef s);
          wy = particleY p + hoverYRef s
      in heart wx wy wz (color p) (life p) (scale p))"

subsection \<open>render: sort and draw\<close>

text \<open>
  Line 668, \<open>renderList.sort((a, b) => a.z - b.z)\<close>: a stable sort by the comparator, which
  orders by \<open>z\<close>.
\<close>

definition sortRenderList :: "renderItem list \<Rightarrow> renderItem list" where
  "sortRenderList renderList = sort_key itemZ renderList"

text \<open>Line 672: the depth used for the projection of an item.\<close>

definition depthOf :: "renderItem \<Rightarrow> real" where
  "depthOf item = 1000 - itemZ item"

text \<open>
  One frame. The result is the scene after the frame and the items drawn, in drawing
  order (line 673 skips an item whose depth is below 10).
\<close>

definition render ::
  "bool \<Rightarrow> Point3D list \<Rightarrow> ExhaustDraws \<Rightarrow> Scene \<Rightarrow> Scene \<times> renderItem list" where
  "render isLightsOn carPoints r s0 =
     (let s = updateParticles (spawnExhaust isLightsOn r (animate isLightsOn s0));
          acc = foldl (carPointStep isLightsOn s) (boundsRef s, []) carPoints;
          renderList = snd acc @ map (particleItem s) (particlesRef s);
          sorted = sortRenderList renderList
      in (s\<lparr>boundsRef := fst acc\<rparr>, filter (\<lambda>item. \<not> depthOf item < 10) sorted))"

subsection \<open>Vocabulary for statements about the scene\<close>

text \<open>A screen point lies in a box grown by \<open>margin\<close> on every side.\<close>

definition inBox :: "real \<Rightarrow> Bounds \<Rightarrow> real \<Rightarrow> real \<Rightarrow> bool" where
  "inBox margin b x y \<longleftrightarrow>
     minX b - margin \<le> x \<and> x \<le> maxX b + margin \<and>
     minY b - margin \<le> y \<and> y \<le> maxY b + margin"

text \<open>The toggle of a door target: open becomes closed and closed becomes open.\<close>

definition flipped :: "real \<Rightarrow> real" where
  "flipped t = (if t > 0.5 then 0 else 1)"

text \<open>Box \<open>outer\<close> holds box \<open>inner\<close>.\<close>

definition holds :: "Bounds \<Rightarrow> Bounds \<Rightarrow> bool" where
  "holds outer inner \<longleftrightarrow>
     minX outer \<le> minX inner \<and> maxX inner \<le> maxX outer \<and>
     minY outer \<le> minY inner \<and> maxY inner \<le> maxY outer"

section \<open>Properties of the scheduler\<close>

subsection \<open>The loop body and the loop\<close>

lemma scheduleStep_fields:
  "audioCtx (scheduleStep score type s) = audioCtx s"
  "musicScheduler (scheduleStep score type s) = musicScheduler s"
  "castleMusicScheduler (scheduleStep score type s) = castleMusicScheduler s"
  "timers (scheduleStep score type s) = timers s"
  "lastHandle (scheduleStep score type s) = lastHandle s"
  "scoreIndex (scheduleStep score type s) = (scoreIndex s + 1) mod length score"
  "nextNoteTime (scheduleStep score type s) =
     nextNoteTime s + snd (score ! scoreIndex s) * SECONDS_PER_BEAT"
  "calls (scheduleStep score type s) = calls s @
     [\<lparr> callNote = fst (score ! scoreIndex s), callDuration = snd (score ! scoreIndex s),
        callTime = nextNoteTime s, callType = type \<rparr>]"
  by (auto simp: scheduleStep_def scheduleNote_def Let_def split: prod.splits option.splits timbre.splits)


lemma wellFormed_step:
  assumes "wellFormed score"
  shows "\<exists>d>0. \<forall>i<length score. d \<le> snd (score ! i) * SECONDS_PER_BEAT"
proof -
  let ?D = "snd ` set score"
  have fin: "finite ?D" and ne: "?D \<noteq> {}" using assms by (auto simp: wellFormed_def)
  have pos: "0 < Min ?D" using assms fin ne by (auto simp: wellFormed_def list_all_iff)
  have "\<forall>i<length score. Min ?D * SECONDS_PER_BEAT \<le> snd (score ! i) * SECONDS_PER_BEAT"
    using fin by (auto simp: SECONDS_PER_BEAT_def TEMPO_def intro!: divide_right_mono)
  moreover have "0 < Min ?D * SECONDS_PER_BEAT" using pos by (simp add: SECONDS_PER_BEAT_def TEMPO_def)
  ultimately show ?thesis by blast
qed

lemma schedulerLoop_rule:
  assumes wf: "wellFormed score"
    and idx: "\<And>s. I s \<Longrightarrow> scoreIndex s < length score"
    and step: "\<And>s. I s \<Longrightarrow> nextNoteTime s < now + SCHEDULE_AHEAD_TIME \<Longrightarrow> I (scheduleStep score type s)"
    and init: "I s"
  shows "\<exists>s'. schedulerLoop score type now s = Some (Inr s') \<and> I s'
            \<and> now + SCHEDULE_AHEAD_TIME \<le> nextNoteTime s'"
proof -
  obtain d where d: "0 < d" "\<forall>i<length score. d \<le> snd (score ! i) * SECONDS_PER_BEAT"
    using wellFormed_step [OF wf] by blast
  have main: "I s \<Longrightarrow> now + SCHEDULE_AHEAD_TIME - nextNoteTime s < real k * d \<Longrightarrow>
      \<exists>s'. schedulerLoop score type now s = Some (Inr s') \<and> I s'
            \<and> now + SCHEDULE_AHEAD_TIME \<le> nextNoteTime s'" for k s
  proof (induction k arbitrary: s)
    case 0
    then show ?case by (subst schedulerLoop.simps) auto
  next
    case (Suc k)
    show ?case
    proof (cases "nextNoteTime s < now + SCHEDULE_AHEAD_TIME")
      case False
      with Suc.prems show ?thesis by (subst schedulerLoop.simps) auto
    next
      case True
      have i: "scoreIndex s < length score" using idx Suc.prems by blast
      have "nextNoteTime s + d \<le> nextNoteTime (scheduleStep score type s)"
        using d i by (simp add: scheduleStep_fields)
      with Suc.prems have "now + SCHEDULE_AHEAD_TIME - nextNoteTime (scheduleStep score type s) < real k * d"
        by (simp add: algebra_simps)
      from Suc.IH [OF step [OF Suc.prems(1) True] this] True i
      show ?thesis by (subst schedulerLoop.simps) simp
    qed
  qed
  obtain k where "now + SCHEDULE_AHEAD_TIME - nextNoteTime s < real k * d"
    using d(1) ex_less_of_nat_mult by blast
  with main init show ?thesis by blast
qed

subsection \<open>Cumulative start times\<close>

lemma wellFormed_scores: "wellFormed JINGLE_BELLS" "wellFormed DISNEY_THEME"
  by (simp_all add: wellFormed_def JINGLE_BELLS_def DISNEY_THEME_def)

lemma wellFormed_scoreOf: "wellFormed (scoreOf m)"
  by (cases m) (simp_all add: scoreOf_def wellFormed_scores)

lemma startTime_0: "startTime score t0 0 = t0"
  by (simp add: startTime_def)

lemma startTime_Suc:
  "startTime score t0 (Suc n) =
     startTime score t0 n + snd (score ! (n mod length score)) * SECONDS_PER_BEAT"
  by (simp add: startTime_def SECONDS_PER_BEAT_def TEMPO_def algebra_simps)

lemma startTime_less_Suc:
  assumes "wellFormed score"
  shows "startTime score t0 n < startTime score t0 (Suc n)"
proof -
  have "n mod length score < length score" using assms by (simp add: wellFormed_def)
  then have "0 < snd (score ! (n mod length score))"
    using assms by (simp add: wellFormed_def list_all_length)
  then show ?thesis by (simp add: startTime_Suc SECONDS_PER_BEAT_def TEMPO_def)
qed

lemma startTime_mono:
  assumes "wellFormed score" "n \<le> k"
  shows "startTime score t0 n \<le> startTime score t0 k"
  using assms(2)
proof (induction rule: dec_induct)
  case base
  show ?case by simp
next
  case (step k)
  with startTime_less_Suc [OF assms(1), of t0 k] show ?case by simp
qed


lemma playedTo_step:
  assumes "score \<noteq> []" "playedTo score type t0 c0 n s"
  shows "playedTo score type t0 c0 (Suc n) (scheduleStep score type s)"
  using assms
  by (simp add: playedTo_def scheduleStep_fields startTime_Suc nthCall_def mod_Suc_eq)

subsection \<open>A scheduler pass\<close>

lemma schedulerLoop_played:
  assumes "wellFormed score" "playedTo score type t0 c0 n s"
  shows "\<exists>s' n'. schedulerLoop score type now s = Some (Inr s') \<and> n \<le> n' \<and>
           playedTo score type t0 c0 n' s' \<and>
           (\<forall>k. n \<le> k \<and> k < n' \<longrightarrow> startTime score t0 k < now + SCHEDULE_AHEAD_TIME) \<and>
           now + SCHEDULE_AHEAD_TIME \<le> nextNoteTime s' \<and>
           audioCtx s' = audioCtx s \<and> musicScheduler s' = musicScheduler s \<and>
           castleMusicScheduler s' = castleMusicScheduler s \<and>
           timers s' = timers s \<and> lastHandle s' = lastHandle s"
proof -
  define I where "I x \<longleftrightarrow> (\<exists>n'\<ge>n. playedTo score type t0 c0 n' x \<and>
             (\<forall>k. n \<le> k \<and> k < n' \<longrightarrow> startTime score t0 k < now + SCHEDULE_AHEAD_TIME)) \<and>
           audioCtx x = audioCtx s \<and> musicScheduler x = musicScheduler s \<and>
           castleMusicScheduler x = castleMusicScheduler s \<and>
           timers x = timers s \<and> lastHandle x = lastHandle s" for x
  have ne: "score \<noteq> []" using assms(1) by (simp add: wellFormed_def)
  have idx: "scoreIndex x < length score" if "I x" for x
    using that ne by (auto simp: I_def playedTo_def)
  have step: "I (scheduleStep score type x)"
    if "I x" "nextNoteTime x < now + SCHEDULE_AHEAD_TIME" for x
  proof -
    from that(1) obtain n' where n': "n \<le> n'" "playedTo score type t0 c0 n' x"
      "\<forall>k. n \<le> k \<and> k < n' \<longrightarrow> startTime score t0 k < now + SCHEDULE_AHEAD_TIME"
      by (auto simp: I_def)
    have "startTime score t0 n' < now + SCHEDULE_AHEAD_TIME"
      using n'(2) that(2) by (simp add: playedTo_def)
    with n'(3) have "\<forall>k. n \<le> k \<and> k < Suc n' \<longrightarrow> startTime score t0 k < now + SCHEDULE_AHEAD_TIME"
      by (auto simp: less_Suc_eq)
    moreover have "n \<le> Suc n'" "playedTo score type t0 c0 (Suc n') (scheduleStep score type x)"
      using playedTo_step [OF ne] n'(1,2) by simp_all
    ultimately show ?thesis using that(1) unfolding I_def scheduleStep_fields by blast
  qed
  have "I s" using assms(2) by (auto simp: I_def)
  from schedulerLoop_rule [of score I now type s, OF assms(1) idx step this]
  show ?thesis unfolding I_def by blast
qed

lemma playedTo_control [simp]:
  "playedTo score type t0 c0 n (s\<lparr>timers := ts\<rparr>) = playedTo score type t0 c0 n s"
  "playedTo score type t0 c0 n (s\<lparr>lastHandle := l\<rparr>) = playedTo score type t0 c0 n s"
  "playedTo score type t0 c0 n (s\<lparr>musicScheduler := h\<rparr>) = playedTo score type t0 c0 n s"
  "playedTo score type t0 c0 n (s\<lparr>castleMusicScheduler := h\<rparr>) = playedTo score type t0 c0 n s"
  "playedTo score type t0 c0 n (s\<lparr>audioCtx := b\<rparr>) = playedTo score type t0 c0 n s"
  by (simp_all add: playedTo_def)

lemma scheduler_pass:
  assumes "audioCtx s" "playedTo (scoreOf m) (timbreOf m) t0 c0 n s"
  shows "\<exists>s' n'. scheduler m now s = Some (Inr s') \<and> n \<le> n' \<and>
           playedTo (scoreOf m) (timbreOf m) t0 c0 n' s' \<and>
           (\<forall>k. n \<le> k \<and> k < n' \<longrightarrow>
              startTime (scoreOf m) t0 k < now + SCHEDULE_AHEAD_TIME) \<and>
           now + SCHEDULE_AHEAD_TIME \<le> nextNoteTime s' \<and> audioCtx s' \<and>
           musicScheduler s' = (if m = Christmas then Some (Suc (lastHandle s)) else musicScheduler s) \<and>
           castleMusicScheduler s' = (if m = Disney then Some (Suc (lastHandle s)) else castleMusicScheduler s) \<and>
           timers s' = timers s @ [(Suc (lastHandle s), callbackOf m)]"
proof -
  from schedulerLoop_played [OF wellFormed_scoreOf assms(2), of now]
  obtain s1 n' where s1: "schedulerLoop (scoreOf m) (timbreOf m) now s = Some (Inr s1)"
    "n \<le> n'" "playedTo (scoreOf m) (timbreOf m) t0 c0 n' s1"
    "\<forall>k. n \<le> k \<and> k < n' \<longrightarrow> startTime (scoreOf m) t0 k < now + SCHEDULE_AHEAD_TIME"
    "now + SCHEDULE_AHEAD_TIME \<le> nextNoteTime s1"
    "audioCtx s1 = audioCtx s" "musicScheduler s1 = musicScheduler s"
    "castleMusicScheduler s1 = castleMusicScheduler s"
    "timers s1 = timers s" "lastHandle s1 = lastHandle s"
    by blast
  show ?thesis
  proof (cases m)
    case Christmas
    with s1 assms(1) show ?thesis
      by (auto simp: scheduler_def treeScheduler_def scoreOf_def timbreOf_def callbackOf_def
          setTimeout_def intro!: exI [of _ n'])
  next
    case Disney
    with s1 assms(1) show ?thesis
      by (auto simp: scheduler_def castleScheduler_def scoreOf_def timbreOf_def callbackOf_def
          setTimeout_def intro!: exI [of _ n'])
  qed
qed

lemma scheduler_idle:
  assumes "audioCtx s" "playedTo (scoreOf m) (timbreOf m) t0 c0 n s"
    "now + SCHEDULE_AHEAD_TIME \<le> nextNoteTime s"
  shows "scheduler m now s =
     Some (Inr (s\<lparr>timers := timers s @ [(Suc (lastHandle s), callbackOf m)],
                  lastHandle := Suc (lastHandle s)\<rparr>
                \<lparr>musicScheduler := (if m = Christmas then Some (Suc (lastHandle s)) else musicScheduler s),
                  castleMusicScheduler := (if m = Disney then Some (Suc (lastHandle s)) else castleMusicScheduler s)\<rparr>))"
proof -
  have "schedulerLoop (scoreOf m) (timbreOf m) now s = Some (Inr s)"
    using assms(3) by (subst schedulerLoop.simps) simp
  then show ?thesis using assms(1)
    by (cases m) (simp_all add: scheduler_def treeScheduler_def castleScheduler_def scoreOf_def timbreOf_def callbackOf_def
          setTimeout_def)
qed

subsection \<open>Events keep the state consistent\<close>

lemma exec_toggle:
  "exec (toggle Christmas b now) s = toggleChristmasMusic b now s"
  "exec (toggle Disney b now) s = toggleDisneyMusic b now s"
  by (simp_all add: toggle_def)

lemma scheduler_simps:
  "treeScheduler = scheduler Christmas" "castleScheduler = scheduler Disney"
  by (simp_all add: scheduler_def)

lemma start_silent:
  assumes "silent s"
  shows "\<exists>s'. exec (toggle m True now) s = Some (Inr s') \<and>
           playsFrom m (now + 0.1) (calls s) 0 s' \<and> calls s' = calls s \<and>
           oscillators s' = oscillators s"
proof -
  define s2 where "s2 = (getCtx s)\<lparr>nextNoteTime := now + 0.1, scoreIndex := 0\<rparr>"
  have ctx: "audioCtx s2" by (simp add: s2_def getCtx_def)
  have pl: "playedTo (scoreOf m) (timbreOf m) (now + 0.1) (calls s) 0 s2"
    by (simp add: playedTo_def s2_def getCtx_def startTime_0)
  have lim: "now + SCHEDULE_AHEAD_TIME \<le> nextNoteTime s2"
    by (simp add: s2_def SCHEDULE_AHEAD_TIME_def)
  have ex: "exec (toggle m True now) s = scheduler m now s2"
    using assms by (cases m) (simp_all add: exec_toggle toggleChristmasMusic_def
        toggleDisneyMusic_def Let_def silent_def getCtx_def s2_def scheduler_simps)
  have fields: "musicScheduler s2 = None" "castleMusicScheduler s2 = None" "timers s2 = []"
    "calls s2 = calls s" "oscillators s2 = oscillators s"
    using assms by (simp_all add: s2_def getCtx_def silent_def)
  show ?thesis
    unfolding ex scheduler_idle [OF ctx pl lim]
    using ctx pl fields by (cases m) (simp_all add: playsFrom_def)
qed

lemma stop_plays:
  assumes "playsFrom m t0 c0 n s"
  shows "\<exists>s'. exec (toggle m False now) s = Some (Inr s') \<and> silent s' \<and>
           calls s' = calls s \<and> oscillators s' = oscillators s"
  using assms
  by (cases m) (auto simp: exec_toggle toggleChristmasMusic_def toggleDisneyMusic_def Let_def
      playsFrom_def getCtx_def clearTimeout_def silent_def)

lemma stop_idle:
  assumes "handle m s = None"
  shows "exec (toggle m False now) s = Some (Inr (getCtx s))"
  using assms
  by (cases m) (auto simp: exec_toggle toggleChristmasMusic_def toggleDisneyMusic_def Let_def
      handle_def getCtx_def)

lemma start_busy:
  assumes "plays m' s"
  shows "exec (toggle m True now) s = Some (Inr s)"
  using assms
  by (cases m; cases m') (auto simp: exec_toggle toggleChristmasMusic_def toggleDisneyMusic_def
      Let_def plays_def playsFrom_def getCtx_def)

lemma tick_silent:
  assumes "silent s"
  shows "timerFires now s = Some (Inr s)"
  using assms by (simp add: timerFires_def silent_def)

lemma tick_plays:
  assumes "playsFrom m t0 c0 n s"
  shows "\<exists>s' n'. timerFires now s = Some (Inr s') \<and> n \<le> n' \<and> playsFrom m t0 c0 n' s' \<and>
           (\<forall>k. n \<le> k \<and> k < n' \<longrightarrow>
              startTime (scoreOf m) t0 k < now + SCHEDULE_AHEAD_TIME) \<and>
           now + SCHEDULE_AHEAD_TIME \<le> nextNoteTime s'"
proof -
  from assms obtain h where h: "timers s = [(h, callbackOf m)]"
    "musicScheduler s = (if m = Christmas then Some h else None)"
    "castleMusicScheduler s = (if m = Disney then Some h else None)"
    and ctx: "audioCtx s" and pl: "playedTo (scoreOf m) (timbreOf m) t0 c0 n s"
    by (auto simp: playsFrom_def)
  have fire: "timerFires now s = scheduler m now (s\<lparr>timers := []\<rparr>)"
    using h(1) by (cases m) (simp_all add: timerFires_def callbackOf_def scheduler_def)
  from scheduler_pass [of "s\<lparr>timers := []\<rparr>" m t0 c0 n now] ctx pl
  obtain s' n' where "scheduler m now (s\<lparr>timers := []\<rparr>) = Some (Inr s')" "n \<le> n'"
    "playedTo (scoreOf m) (timbreOf m) t0 c0 n' s'"
    "\<forall>k. n \<le> k \<and> k < n' \<longrightarrow> startTime (scoreOf m) t0 k < now + SCHEDULE_AHEAD_TIME"
    "now + SCHEDULE_AHEAD_TIME \<le> nextNoteTime s'" "audioCtx s'"
    "musicScheduler s' = (if m = Christmas then Some (Suc (lastHandle s)) else musicScheduler s)"
    "castleMusicScheduler s' = (if m = Disney then Some (Suc (lastHandle s)) else castleMusicScheduler s)"
    "timers s' = [(Suc (lastHandle s), callbackOf m)]"
    by auto
  with h(2,3) fire show ?thesis
    by (cases m) (auto simp: playsFrom_def)
qed

lemma consistent_getCtx:
  assumes "consistent s"
  shows "consistent (getCtx s)"
  using assms by (auto simp: consistent_def getCtx_def silent_def plays_def playsFrom_def)

lemma exec_consistent:
  assumes "consistent s"
  shows "\<exists>s'. exec e s = Some (Inr s') \<and> consistent s'"
proof -
  have toggles: "\<exists>s'. exec (toggle m b now) s = Some (Inr s') \<and> consistent s'" for m b now
  proof (cases b)
    case True
    show ?thesis
    proof (cases "silent s")
      case True
      from start_silent [OF this, of m now] \<open>b\<close> show ?thesis
        by (cases m) (auto simp: consistent_def plays_def)
    next
      case False
      with assms obtain m' where "plays m' s" by (auto simp: consistent_def)
      from start_busy [OF this, of m now] \<open>b\<close> assms show ?thesis by simp
    qed
  next
    case False
    show ?thesis
    proof (cases "plays m s")
      case True
      then obtain t0 c0 n where "playsFrom m t0 c0 n s" by (auto simp: plays_def)
      from stop_plays [OF this, of now] \<open>\<not> b\<close> show ?thesis by (auto simp: consistent_def)
    next
      case np: False
      have hn: "handle m s = None"
        using assms np by (cases m) (auto simp: consistent_def plays_def playsFrom_def silent_def handle_def)
      from stop_idle [OF hn, of now] consistent_getCtx [OF assms] \<open>\<not> b\<close>
      show ?thesis by simp
    qed
  qed
  show ?thesis
  proof (cases e)
    case (ChristmasMusic b now)
    with toggles [of Christmas b now] show ?thesis by (simp add: toggle_def)
  next
    case (DisneyMusic b now)
    with toggles [of Disney b now] show ?thesis by (simp add: toggle_def)
  next
    case (TimerFires now)
    show ?thesis
    proof (cases "silent s")
      case True
      with tick_silent [OF this, of now] TimerFires assms show ?thesis by simp
    next
      case False
      with assms obtain m t0 c0 n where "playsFrom m t0 c0 n s"
        by (auto simp: consistent_def plays_def)
      from tick_plays [OF this, of now] TimerFires show ?thesis
        by (cases m) (auto simp: consistent_def plays_def)
    qed
  next
    case SoundEffect
    with consistent_getCtx [OF assms] show ?thesis by simp
  qed
qed

lemma run_consistent:
  assumes "consistent s"
  shows "\<exists>s'. run evs s = Some (Inr s') \<and> consistent s'"
  using assms
proof (induction evs arbitrary: s)
  case Nil
  then show ?case by simp
next
  case (Cons e evs)
  from exec_consistent [OF Cons.prems, of e]
  obtain s1 where "exec e s = Some (Inr s1)" "consistent s1" by blast
  with Cons.IH [of s1] show ?case by simp
qed

lemma consistent_initial: "consistent initial"
  by (simp add: consistent_def silent_def initial_def)

lemma reachable_consistent:
  assumes "run evs initial = Some (Inr s)"
  shows "consistent s"
  using run_consistent [OF consistent_initial, of evs] assms by auto

subsection \<open>Playback order and timing\<close>

lemma ticks_plays:
  assumes "playsFrom m t0 c0 n s"
  shows "\<exists>s' n'. run (map TimerFires nows) s = Some (Inr s') \<and> n \<le> n' \<and>
           playsFrom m t0 c0 n' s' \<and>
           (\<forall>now\<in>set nows. now + SCHEDULE_AHEAD_TIME \<le> nextNoteTime s')"
  using assms
proof (induction nows arbitrary: s n)
  case Nil
  then show ?case by auto
next
  case (Cons now nows)
  from tick_plays [OF Cons.prems, of now]
  obtain s1 n1 where s1: "timerFires now s = Some (Inr s1)" "n \<le> n1"
    "playsFrom m t0 c0 n1 s1" "now + SCHEDULE_AHEAD_TIME \<le> nextNoteTime s1"
    by blast
  from Cons.IH [OF s1(3)]
  obtain s' n' where s': "run (map TimerFires nows) s1 = Some (Inr s')" "n1 \<le> n'"
    "playsFrom m t0 c0 n' s'"
    "\<forall>now\<in>set nows. now + SCHEDULE_AHEAD_TIME \<le> nextNoteTime s'"
    by blast
  have "nextNoteTime s1 \<le> nextNoteTime s'"
    using s1(3) s'(3) startTime_mono [OF wellFormed_scoreOf s'(2), of m t0]
    by (simp add: playsFrom_def playedTo_def)
  with s1 s' show ?case by (intro exI [of _ s'] exI [of _ n']) simp
qed


lemma not_playing_silent:
  assumes "consistent s" "musicScheduler s = None" "castleMusicScheduler s = None"
  shows "silent s"
  using assms by (auto simp: consistent_def plays_def playsFrom_def split: if_splits)



text \<open>
  Claim C2. Every run of toggles and timeouts returns, and in the state it reaches at most
  one of \<open>musicScheduler\<close> and \<open>castleMusicScheduler\<close> is set. While either is set,
  \<open>toggleChristmasMusic(true)\<close> and \<open>toggleDisneyMusic(true)\<close> both leave the state as it is:
  no cursor reset, no new timeout, no note.
\<close>

theorem one_scheduler_at_a_time:
  "\<exists>s. run evs initial = Some (Inr s) \<and>
     (musicScheduler s = None \<or> castleMusicScheduler s = None) \<and>
     (musicScheduler s \<noteq> None \<or> castleMusicScheduler s \<noteq> None \<longrightarrow>
        toggleChristmasMusic True now s = Some (Inr s) \<and>
        toggleDisneyMusic True now s = Some (Inr s))"
proof -
  from run_consistent [OF consistent_initial, of evs]
  obtain s where s: "run evs initial = Some (Inr s)" "consistent s" by blast
  have one: "musicScheduler s = None \<or> castleMusicScheduler s = None"
    using s(2) by (auto simp: consistent_def silent_def plays_def playsFrom_def split: if_splits)
  have noop: "toggleChristmasMusic True now s = Some (Inr s) \<and>
        toggleDisneyMusic True now s = Some (Inr s)"
    if "musicScheduler s \<noteq> None \<or> castleMusicScheduler s \<noteq> None"
  proof -
    from that s(2) obtain m' where "plays m' s" by (auto simp: consistent_def silent_def)
    from start_busy [OF this, of Christmas now] start_busy [OF this, of Disney now]
    show ?thesis by (simp add: exec_toggle)
  qed
  from s(1) one noop show ?thesis by blast
qed

theorem one_scheduler_at_a_time_witness:
  "run [ChristmasMusic True 0] initial =
     Some (Inr (initial\<lparr>audioCtx := True, musicScheduler := Some 1, nextNoteTime := 0.1,
                  timers := [(1, treeCallback)], lastHandle := 1\<rparr>)) \<and>
   toggleChristmasMusic True 5
       (initial\<lparr>audioCtx := True, musicScheduler := Some 1, nextNoteTime := 0.1,
                  timers := [(1, treeCallback)], lastHandle := 1\<rparr>) =
     Some (Inr (initial\<lparr>audioCtx := True, musicScheduler := Some 1, nextNoteTime := 0.1,
                  timers := [(1, treeCallback)], lastHandle := 1\<rparr>)) \<and>
   toggleDisneyMusic True 5
       (initial\<lparr>audioCtx := True, musicScheduler := Some 1, nextNoteTime := 0.1,
                  timers := [(1, treeCallback)], lastHandle := 1\<rparr>) =
     Some (Inr (initial\<lparr>audioCtx := True, musicScheduler := Some 1, nextNoteTime := 0.1,
                  timers := [(1, treeCallback)], lastHandle := 1\<rparr>))"
proof -
  have r: "run [ChristmasMusic True 0] initial =
     Some (Inr (initial\<lparr>audioCtx := True, musicScheduler := Some 1, nextNoteTime := 0.1,
                  timers := [(1, treeCallback)], lastHandle := 1\<rparr>))"
    by (simp add: toggleChristmasMusic_def getCtx_def initial_def treeScheduler_def
        schedulerLoop.simps SCHEDULE_AHEAD_TIME_def setTimeout_def Let_def)
  from one_scheduler_at_a_time [of "[ChristmasMusic True 0]" 5] r
  show ?thesis by (auto simp: initial_def)
qed

text \<open>
  Claim C7. Stop the melody that plays, then start either melody at clock \<open>now2\<close>: the
  index is 0, the cursor is \<open>now2 + 0.1\<close>, nothing has been handed over yet, and whatever
  timeouts fire afterwards the notes handed over are an initial stretch of the started
  score; the first of them is the score's first event at \<open>now2 + 0.1\<close>, and it is handed
  over as soon as a timeout fires after \<open>now2\<close>.
\<close>

theorem restart_plays_from_the_first_note:
  assumes "run evs initial = Some (Inr s)" and "handle m s \<noteq> None"
  shows "\<exists>s1 s2. exec (toggle m False now1) s = Some (Inr s1) \<and>
           exec (toggle m' True now2) s1 = Some (Inr s2) \<and>
           scoreIndex s2 = 0 \<and> nextNoteTime s2 = now2 + 0.1 \<and> calls s2 = calls s \<and>
           (\<forall>nows. \<exists>s3 n. run (map TimerFires nows) s2 = Some (Inr s3) \<and>
              calls s3 = calls s @
                map (nthCall (scoreOf m') (timbreOf m') (now2 + 0.1)) [0..<n] \<and>
              (\<forall>now\<in>set nows. now2 < now \<longrightarrow> 0 < n) \<and>
              (0 < n \<longrightarrow> calls s3 ! length (calls s) =
                 \<lparr> callNote = fst (scoreOf m' ! 0), callDuration = snd (scoreOf m' ! 0),
                   callTime = now2 + 0.1, callType = timbreOf m' \<rparr>))"
proof -
  have "consistent s" using reachable_consistent [OF assms(1)] .
  with assms(2) have "plays m s"
    by (cases m) (auto simp: consistent_def silent_def handle_def plays_def playsFrom_def
        split: if_splits)
  then obtain t0 c0 n0 where "playsFrom m t0 c0 n0 s" by (auto simp: plays_def)
  from stop_plays [OF this, of now1]
  obtain s1 where s1: "exec (toggle m False now1) s = Some (Inr s1)" "silent s1"
    "calls s1 = calls s" by blast
  from start_silent [OF s1(2), of m' now2]
  obtain s2 where s2: "exec (toggle m' True now2) s1 = Some (Inr s2)"
    "playsFrom m' (now2 + 0.1) (calls s) 0 s2" "calls s2 = calls s"
    using s1(3) by auto
  have first: "scoreIndex s2 = 0" "nextNoteTime s2 = now2 + 0.1"
    using s2(2) by (simp_all add: playsFrom_def playedTo_def startTime_0)
  have later: "\<exists>s3 n. run (map TimerFires nows) s2 = Some (Inr s3) \<and>
              calls s3 = calls s @
                map (nthCall (scoreOf m') (timbreOf m') (now2 + 0.1)) [0..<n] \<and>
              (\<forall>now\<in>set nows. now2 < now \<longrightarrow> 0 < n) \<and>
              (0 < n \<longrightarrow> calls s3 ! length (calls s) =
                 \<lparr> callNote = fst (scoreOf m' ! 0), callDuration = snd (scoreOf m' ! 0),
                   callTime = now2 + 0.1, callType = timbreOf m' \<rparr>)" for nows
  proof -
    from ticks_plays [OF s2(2), of nows]
    obtain s3 n where s3: "run (map TimerFires nows) s2 = Some (Inr s3)"
      "playsFrom m' (now2 + 0.1) (calls s) n s3"
      "\<forall>now\<in>set nows. now + SCHEDULE_AHEAD_TIME \<le> nextNoteTime s3" by blast
    have cur: "nextNoteTime s3 = startTime (scoreOf m') (now2 + 0.1) n"
      and log: "calls s3 = calls s @
                map (nthCall (scoreOf m') (timbreOf m') (now2 + 0.1)) [0..<n]"
      using s3(2) by (simp_all add: playsFrom_def playedTo_def)
    have "0 < n" if "now \<in> set nows" "now2 < now" for now
    proof (rule ccontr)
      assume "\<not> 0 < n"
      then have "nextNoteTime s3 = now2 + 0.1" using cur by (simp add: startTime_0)
      with s3(3) that show False by (auto simp: SCHEDULE_AHEAD_TIME_def)
    qed
    moreover have "calls s3 ! length (calls s) =
                 \<lparr> callNote = fst (scoreOf m' ! 0), callDuration = snd (scoreOf m' ! 0),
                   callTime = now2 + 0.1, callType = timbreOf m' \<rparr>" if "0 < n"
      using that log by (simp add: nth_append nthCall_def startTime_0)
    ultimately show ?thesis using s3(1) log by blast
  qed
  from s1(1) s2(1,3) first later show ?thesis by blast
qed

theorem restart_plays_from_the_first_note_witness:
  "run [ChristmasMusic True 0] initial =
     Some (Inr (initial\<lparr>audioCtx := True, musicScheduler := Some 1, nextNoteTime := 0.1,
                  timers := [(1, treeCallback)], lastHandle := 1\<rparr>)) \<and>
   handle Christmas
     (initial\<lparr>audioCtx := True, musicScheduler := Some 1, nextNoteTime := 0.1,
                  timers := [(1, treeCallback)], lastHandle := 1\<rparr>) \<noteq> None \<and>
   (\<exists>s1 s2. exec (toggle Christmas False 1)
          (initial\<lparr>audioCtx := True, musicScheduler := Some 1, nextNoteTime := 0.1,
                  timers := [(1, treeCallback)], lastHandle := 1\<rparr>) = Some (Inr s1) \<and>
      exec (toggle Disney True 2) s1 = Some (Inr s2) \<and>
      scoreIndex s2 = 0 \<and> nextNoteTime s2 = 2 + 0.1 \<and>
      (\<exists>s3 n. run (map TimerFires [2.05]) s2 = Some (Inr s3) \<and> 0 < (n :: nat) \<and>
         calls s3 ! 0 =
           \<lparr> callNote = fst (scoreOf Disney ! 0), callDuration = snd (scoreOf Disney ! 0),
             callTime = 2 + 0.1, callType = timbreOf Disney \<rparr>))"
proof -
  let ?s = "initial\<lparr>audioCtx := True, musicScheduler := Some 1, nextNoteTime := 0.1,
                  timers := [(1, treeCallback)], lastHandle := 1\<rparr>"
  have h1: "run [ChristmasMusic True 0] initial = Some (Inr ?s)"
    by (simp add: toggleChristmasMusic_def getCtx_def initial_def treeScheduler_def
        schedulerLoop.simps SCHEDULE_AHEAD_TIME_def setTimeout_def Let_def)
  have h2: "handle Christmas ?s \<noteq> None" by (simp add: handle_def)
  have c: "calls ?s = []" by (simp add: initial_def)
  from restart_plays_from_the_first_note [OF h1 h2, of 1 Disney 2]
  obtain s1 s2 where s: "exec (toggle Christmas False 1) ?s = Some (Inr s1)"
    "exec (toggle Disney True 2) s1 = Some (Inr s2)"
    "scoreIndex s2 = 0" "nextNoteTime s2 = 2 + 0.1"
    "\<forall>nows. \<exists>s3 n. run (map TimerFires nows) s2 = Some (Inr s3) \<and>
              calls s3 = calls ?s @
                map (nthCall (scoreOf Disney) (timbreOf Disney) (2 + 0.1)) [0..<n] \<and>
              (\<forall>now\<in>set nows. 2 < now \<longrightarrow> 0 < n) \<and>
              (0 < n \<longrightarrow> calls s3 ! length (calls ?s) =
                 \<lparr> callNote = fst (scoreOf Disney ! 0), callDuration = snd (scoreOf Disney ! 0),
                   callTime = 2 + 0.1, callType = timbreOf Disney \<rparr>)"
    by blast
  from s(5) obtain s3 n where s3: "run (map TimerFires [2.05]) s2 = Some (Inr s3)"
    "\<forall>now\<in>set [2.05 :: real]. 2 < now \<longrightarrow> 0 < (n :: nat)"
    "0 < n \<longrightarrow> calls s3 ! length (calls ?s) =
                 \<lparr> callNote = fst (scoreOf Disney ! 0), callDuration = snd (scoreOf Disney ! 0),
                   callTime = 2 + 0.1, callType = timbreOf Disney \<rparr>"
    by blast
  have "(2.05 :: real) \<in> set [2.05]" by simp
  with s3(2) have "(2 :: real) < 2.05 \<longrightarrow> 0 < n" by blast
  then have n: "0 < n" by simp
  with s3(3) c have "calls s3 ! 0 =
           \<lparr> callNote = fst (scoreOf Disney ! 0), callDuration = snd (scoreOf Disney ! 0),
             callTime = 2 + 0.1, callType = timbreOf Disney \<rparr>"
    by simp
  with s3(1) n have "\<exists>s3 n. run (map TimerFires [2.05]) s2 = Some (Inr s3) \<and> 0 < (n :: nat) \<and>
         calls s3 ! 0 =
           \<lparr> callNote = fst (scoreOf Disney ! 0), callDuration = snd (scoreOf Disney ! 0),
             callTime = 2 + 0.1, callType = timbreOf Disney \<rparr>"
    by blast
  with h1 h2 s(1-4) show ?thesis by blast
qed

subsection \<open>Timer lateness and rests\<close>

lemma handedOver_silent:
  assumes "silent s"
  shows "handedOver now s = []"
  using tick_silent [OF assms, of now] by (simp add: handedOver_def)

lemma handedOver_plays:
  assumes "playsFrom m t0 c0 n s"
  shows "\<exists>s' n'. timerFires now s = Some (Inr s') \<and> n \<le> n' \<and>
           handedOver now s = map (nthCall (scoreOf m) (timbreOf m) t0) [n..<n'] \<and>
           (\<forall>k. n \<le> k \<and> k < n' \<longrightarrow>
              startTime (scoreOf m) t0 k < now + SCHEDULE_AHEAD_TIME)"
proof -
  from tick_plays [OF assms, of now]
  obtain s' n' where s': "timerFires now s = Some (Inr s')" "n \<le> n'"
    "playsFrom m t0 c0 n' s'"
    "\<forall>k. n \<le> k \<and> k < n' \<longrightarrow> startTime (scoreOf m) t0 k < now + SCHEDULE_AHEAD_TIME"
    by blast
  have "calls s = c0 @ map (nthCall (scoreOf m) (timbreOf m) t0) [0..<n]"
    "calls s' = c0 @ map (nthCall (scoreOf m) (timbreOf m) t0) [0..<n']"
    using assms s'(3) by (simp_all add: playsFrom_def playedTo_def)
  then have "handedOver now s = map (nthCall (scoreOf m) (timbreOf m) t0) [n..<n']"
    using s'(1) by (simp add: handedOver_def drop_map)
  with s' show ?thesis by blast
qed

lemma handedOver_window:
  assumes "consistent s" "now \<le> nextNoteTime s"
  shows "\<exists>s'. timerFires now s = Some (Inr s')"
    and "\<forall>c\<in>set (handedOver now s). now \<le> callTime c \<and> callTime c < now + SCHEDULE_AHEAD_TIME"
proof -
  have "(\<exists>s'. timerFires now s = Some (Inr s')) \<and>
     (\<forall>c\<in>set (handedOver now s). now \<le> callTime c \<and> callTime c < now + SCHEDULE_AHEAD_TIME)"
  proof (cases "silent s")
    case True
    with tick_silent [OF True, of now] handedOver_silent [OF True, of now] show ?thesis by simp
  next
    case False
    with assms(1) obtain m t0 c0 n where pl: "playsFrom m t0 c0 n s"
      by (auto simp: consistent_def plays_def)
    from handedOver_plays [OF this, of now]
    obtain s' n' where s': "timerFires now s = Some (Inr s')"
      "handedOver now s = map (nthCall (scoreOf m) (timbreOf m) t0) [n..<n']"
      "\<forall>k. n \<le> k \<and> k < n' \<longrightarrow> startTime (scoreOf m) t0 k < now + SCHEDULE_AHEAD_TIME"
      by blast
    have cur: "nextNoteTime s = startTime (scoreOf m) t0 n"
      using pl by (simp add: playsFrom_def playedTo_def)
    have "now \<le> startTime (scoreOf m) t0 k" if "n \<le> k" for k
      using startTime_mono [OF wellFormed_scoreOf that, of m t0] assms(2) cur by simp
    with s' show ?thesis by (auto simp: nthCall_def)
  qed
  then show "\<exists>s'. timerFires now s = Some (Inr s')"
    and "\<forall>c\<in>set (handedOver now s). now \<le> callTime c \<and> callTime c < now + SCHEDULE_AHEAD_TIME"
    by blast+
qed

lemma pass_cursor:
  assumes "consistent s0" "exec e s0 = Some (Inr s1)"
    and "(e = TimerFires T \<and> timers s0 \<noteq> []) \<or>
         ((e = ChristmasMusic True T \<or> e = DisneyMusic True T) \<and>
          musicScheduler s0 = None \<and> castleMusicScheduler s0 = None)"
  shows "T + SCHEDULE_AHEAD_TIME \<le> nextNoteTime s1"
  using assms(3)
proof (elim disjE conjE)
  assume e: "e = TimerFires T" and "timers s0 \<noteq> []"
  with assms(1) obtain m t0 c0 n where "playsFrom m t0 c0 n s0"
    by (auto simp: consistent_def silent_def plays_def)
  from tick_plays [OF this, of T] assms(2) e show ?thesis by auto
next
  assume none: "musicScheduler s0 = None" "castleMusicScheduler s0 = None"
  have sil: "silent s0" using not_playing_silent [OF assms(1) none] .
  {
    fix m assume "e = toggle m True T"
    with start_silent [OF sil, of m T] assms(2)
    have "playsFrom m (T + 0.1) (calls s0) 0 s1" by auto
    then have "T + SCHEDULE_AHEAD_TIME \<le> nextNoteTime s1"
      by (simp add: playsFrom_def playedTo_def startTime_0 SCHEDULE_AHEAD_TIME_def)
  } note start = this
  {
    assume "e = ChristmasMusic True T"
    then show ?thesis using start [of Christmas] by (simp add: toggle_def)
  next
    assume "e = DisneyMusic True T"
    then show ?thesis using start [of Disney] by (simp add: toggle_def)
  }
qed

text \<open>
  Claim C8, as stated, fails. Start the bell melody at clock 0: the cursor is 0.1 and the
  timeout is due at \<open>0 + LOOKAHEAD\<close>. Let it fire 0.05 s late, which is within the 0.1 s
  lookahead margin: the first note, due at 0.1, is handed over at clock 0.15.
\<close>

theorem late_timeout_hands_note_after_its_start:
  "run [ChristmasMusic True 0] initial =
     Some (Inr (initial\<lparr>audioCtx := True, musicScheduler := Some 1, nextNoteTime := 0.1,
                  timers := [(1, treeCallback)], lastHandle := 1\<rparr>)) \<and>
   (0.05 :: real) \<le> SCHEDULE_AHEAD_TIME \<and>
   lateHandovers (0 + LOOKAHEAD + 0.05)
       (initial\<lparr>audioCtx := True, musicScheduler := Some 1, nextNoteTime := 0.1,
                  timers := [(1, treeCallback)], lastHandle := 1\<rparr>) =
     [\<lparr> callNote = Some ''E5'', callDuration = 1, callTime = 0.1, callType = bell \<rparr>]"
  by (simp add: toggleChristmasMusic_def getCtx_def initial_def treeScheduler_def timerFires_def
      schedulerLoop.simps SCHEDULE_AHEAD_TIME_def LOOKAHEAD_def setTimeout_def Let_def
      scheduleStep_def scheduleNote_def JINGLE_BELLS_def SECONDS_PER_BEAT_def TEMPO_def
      lateHandovers_def handedOver_def)

text \<open>
  Claim C8, amended. After a scheduler pass at clock \<open>T\<close> (a timeout that fired, or a start
  from silence), a timeout that fires at a clock reading of at most \<open>T\<close> plus the lookahead
  window returns and hands over no note after its start time: every note it hands over
  starts at or after the reading and less than the lookahead window after it. The
  polling interval equals the window, so this leaves no room for a late timeout.
\<close>

theorem punctual_timeout_hands_notes_on_time:
  assumes "run evs initial = Some (Inr s0)" and "exec e s0 = Some (Inr s1)"
    and "(e = TimerFires T \<and> timers s0 \<noteq> []) \<or>
         ((e = ChristmasMusic True T \<or> e = DisneyMusic True T) \<and>
          musicScheduler s0 = None \<and> castleMusicScheduler s0 = None)"
    and "now \<le> T + SCHEDULE_AHEAD_TIME"
  shows "(\<exists>s2. timerFires now s1 = Some (Inr s2)) \<and> lateHandovers now s1 = [] \<and>
         (\<forall>c\<in>set (handedOver now s1). now \<le> callTime c \<and> callTime c < now + SCHEDULE_AHEAD_TIME)"
proof -
  have c0: "consistent s0" using reachable_consistent [OF assms(1)] .
  have c1: "consistent s1" using exec_consistent [OF c0, of e] assms(2) by auto
  have "now \<le> nextNoteTime s1" using pass_cursor [OF c0 assms(2,3)] assms(4) by simp
  from handedOver_window [OF c1 this] show ?thesis
    by (auto simp: lateHandovers_def filter_empty_conv)
qed

theorem punctual_timeout_hands_notes_on_time_witness:
  "run [] initial = Some (Inr initial) \<and>
   exec (ChristmasMusic True 0) initial =
     Some (Inr (initial\<lparr>audioCtx := True, musicScheduler := Some 1, nextNoteTime := 0.1,
                  timers := [(1, treeCallback)], lastHandle := 1\<rparr>)) \<and>
   musicScheduler initial = None \<and> castleMusicScheduler initial = None \<and>
   (0.1 :: real) \<le> 0 + SCHEDULE_AHEAD_TIME \<and>
   lateHandovers 0.1
       (initial\<lparr>audioCtx := True, musicScheduler := Some 1, nextNoteTime := 0.1,
                  timers := [(1, treeCallback)], lastHandle := 1\<rparr>) = [] \<and>
   handedOver 0.1
       (initial\<lparr>audioCtx := True, musicScheduler := Some 1, nextNoteTime := 0.1,
                  timers := [(1, treeCallback)], lastHandle := 1\<rparr>) =
     [\<lparr> callNote = Some ''E5'', callDuration = 1, callTime = 0.1, callType = bell \<rparr>]"
proof -
  let ?s1 = "initial\<lparr>audioCtx := True, musicScheduler := Some 1, nextNoteTime := 0.1,
                  timers := [(1, treeCallback)], lastHandle := 1\<rparr>"
  have h1: "run [] initial = Some (Inr initial)" by simp
  have h2: "exec (ChristmasMusic True 0) initial = Some (Inr ?s1)"
    by (simp add: toggleChristmasMusic_def getCtx_def initial_def treeScheduler_def
        schedulerLoop.simps SCHEDULE_AHEAD_TIME_def setTimeout_def Let_def)
  have h3: "(ChristmasMusic True 0 = TimerFires 0 \<and> timers initial \<noteq> []) \<or>
         ((ChristmasMusic True 0 = ChristmasMusic True 0 \<or> ChristmasMusic True 0 = DisneyMusic True 0) \<and>
          musicScheduler initial = None \<and> castleMusicScheduler initial = None)"
    by (simp add: initial_def)
  have h4: "(0.1 :: real) \<le> 0 + SCHEDULE_AHEAD_TIME" by (simp add: SCHEDULE_AHEAD_TIME_def)
  have ho: "handedOver 0.1 ?s1 =
     [\<lparr> callNote = Some ''E5'', callDuration = 1, callTime = 0.1, callType = bell \<rparr>]"
    by (simp add: initial_def treeScheduler_def timerFires_def
      schedulerLoop.simps SCHEDULE_AHEAD_TIME_def setTimeout_def Let_def
      scheduleStep_def scheduleNote_def JINGLE_BELLS_def SECONDS_PER_BEAT_def TEMPO_def
      handedOver_def)
  from punctual_timeout_hands_notes_on_time [OF h1 h2 h3 h4] h1 h2 h3 h4 ho
  show ?thesis by simp
qed

text \<open>
  Claim C10. \<open>scheduleNote\<close> on a null pitch changes nothing. When the event at the score
  index is a rest, one pass through the loop body starts no oscillator, advances the
  cursor by the rest's duration times \<open>SECONDS_PER_BEAT\<close> and the index by one modulo the
  score length; the loop goes on from there, and a playback that was on schedule after
  \<open>n\<close> events is on schedule after \<open>n + 1\<close>.
\<close>

theorem rest_is_silent_and_keeps_time:
  assumes "scoreIndex s < length score" and "fst (score ! scoreIndex s) = None"
  shows "scheduleNote None duration time type s = s \<and>
         oscillators (scheduleStep score type s) = oscillators s \<and>
         nextNoteTime (scheduleStep score type s) =
           nextNoteTime s + snd (score ! scoreIndex s) * SECONDS_PER_BEAT \<and>
         scoreIndex (scheduleStep score type s) = (scoreIndex s + 1) mod length score \<and>
         (nextNoteTime s < now + SCHEDULE_AHEAD_TIME \<longrightarrow>
            schedulerLoop score type now s =
            schedulerLoop score type now (scheduleStep score type s)) \<and>
         (playedTo score type t0 c0 n s \<longrightarrow>
            playedTo score type t0 c0 (Suc n) (scheduleStep score type s))"
proof -
  have ne: "score \<noteq> []" using assms(1) by auto
  have "oscillators (scheduleStep score type s) = oscillators s"
    using assms(2) by (cases "score ! scoreIndex s") (simp add: scheduleStep_def scheduleNote_def)
  moreover have "nextNoteTime s < now + SCHEDULE_AHEAD_TIME \<longrightarrow>
            schedulerLoop score type now s =
            schedulerLoop score type now (scheduleStep score type s)"
    using assms(1) by (subst schedulerLoop.simps) simp
  ultimately show ?thesis
    using playedTo_step [OF ne] by (simp add: scheduleNote_def scheduleStep_fields)
qed

theorem rest_is_silent_and_keeps_time_witness:
  "scoreIndex (initial\<lparr>audioCtx := True, scoreIndex := 7, nextNoteTime := 1\<rparr>) < length DISNEY_THEME \<and>
   fst (DISNEY_THEME ! scoreIndex (initial\<lparr>audioCtx := True, scoreIndex := 7, nextNoteTime := 1\<rparr>)) = None \<and>
   oscillators (scheduleStep DISNEY_THEME orchestra
      (initial\<lparr>audioCtx := True, scoreIndex := 7, nextNoteTime := 1\<rparr>)) = [] \<and>
   nextNoteTime (scheduleStep DISNEY_THEME orchestra
      (initial\<lparr>audioCtx := True, scoreIndex := 7, nextNoteTime := 1\<rparr>)) = 1 + 0.5 * (60 / 140) \<and>
   scoreIndex (scheduleStep DISNEY_THEME orchestra
      (initial\<lparr>audioCtx := True, scoreIndex := 7, nextNoteTime := 1\<rparr>)) = 8"
proof -
  let ?s = "initial\<lparr>audioCtx := True, scoreIndex := 7, nextNoteTime := 1\<rparr>"
  have h: "scoreIndex ?s < length DISNEY_THEME" "fst (DISNEY_THEME ! scoreIndex ?s) = None"
    by (simp_all add: DISNEY_THEME_def)
  have v: "snd (DISNEY_THEME ! 7) = 0.5" "length DISNEY_THEME = 24" "oscillators ?s = []"
    by (simp_all add: DISNEY_THEME_def initial_def)
  from rest_is_silent_and_keeps_time [OF h, of 0 0 orchestra 0 0 "[]" 0] h v
  show ?thesis by (simp add: SECONDS_PER_BEAT_def TEMPO_def)
qed

section \<open>Properties of the scene\<close>

subsection \<open>Animation, drawing order and morph\<close>

lemma render_scalars:
  "valLeftDoor (fst (render on carPoints r s)) = valLeftDoor (animate on s)"
  "valRightDoor (fst (render on carPoints r s)) = valRightDoor (animate on s)"
  "wheelRotationRef (fst (render on carPoints r s)) = wheelRotationRef (animate on s)"
  "targetLeftDoor (fst (render on carPoints r s)) = targetLeftDoor s"
  "targetRightDoor (fst (render on carPoints r s)) = targetRightDoor s"
  by (simp_all add: render_def Let_def updateParticles_def spawnExhaust_def animate_def)

text \<open>
  Claim C4. In a frame with the lights on, both door blends move towards 0 whatever the
  stored door targets are (the targets themselves are kept), and the wheel angle grows
  by 0.3. In a frame with the lights off the wheel angle is 0 at once, and the door
  blends move towards their stored targets.
\<close>

theorem lights_on_shuts_doors_and_spins_wheels:
  "valLeftDoor (fst (render True carPoints r s)) = valLeftDoor s + (0 - valLeftDoor s) * 0.1 \<and>
   valRightDoor (fst (render True carPoints r s)) = valRightDoor s + (0 - valRightDoor s) * 0.1 \<and>
   wheelRotationRef (fst (render True carPoints r s)) = wheelRotationRef s + 0.3 \<and>
   wheelRotationRef (fst (render False carPoints r s)) = 0 \<and>
   valLeftDoor (fst (render False carPoints r s)) =
     valLeftDoor s + (targetLeftDoor s - valLeftDoor s) * 0.1 \<and>
   valRightDoor (fst (render False carPoints r s)) =
     valRightDoor s + (targetRightDoor s - valRightDoor s) * 0.1 \<and>
   targetLeftDoor (fst (render True carPoints r s)) = targetLeftDoor s \<and>
   targetRightDoor (fst (render True carPoints r s)) = targetRightDoor s"
  unfolding render_scalars by (simp add: animate_def)

lemma sorted_sortRenderList: "sorted (map itemZ (sortRenderList renderList))"
  by (simp add: sortRenderList_def)

lemma sorted_rev_depth:
  assumes "sorted (map itemZ xs)"
  shows "sorted (rev (map depthOf xs))"
proof -
  have "sorted (rev (map depthOf xs)) = sorted_wrt (\<lambda>a b. depthOf b \<le> depthOf a) xs"
    by (simp add: sorted_wrt_rev sorted_wrt_map)
  also have "\<dots> = sorted (map itemZ xs)"
    by (simp add: sorted_wrt_map depthOf_def)
  finally show ?thesis using assms by simp
qed

text \<open>
  Claim C5, as stated, fails: the sort is ascending by \<open>z\<close>. Of two hearts at \<open>z = 1\<close> and
  \<open>z = 0\<close>, the one at \<open>z = 0\<close> (depth 1000) comes first and the one at \<open>z = 1\<close> (depth 999)
  second, so the depths descend and the \<open>z\<close> values ascend.
\<close>

theorem far_item_drawn_first:
  "sortRenderList [heart 0 0 1 ''#f472b6'' 1 1, heart 0 0 0 ''#fbcfe8'' 1 1] =
     [heart 0 0 0 ''#fbcfe8'' 1 1, heart 0 0 1 ''#f472b6'' 1 1] \<and>
   map depthOf (sortRenderList [heart 0 0 1 ''#f472b6'' 1 1, heart 0 0 0 ''#fbcfe8'' 1 1]) =
     [1000, 999] \<and>
   \<not> sorted (map depthOf
        (sortRenderList [heart 0 0 1 ''#f472b6'' 1 1, heart 0 0 0 ''#fbcfe8'' 1 1])) \<and>
   \<not> sorted (rev (map itemZ
        (sortRenderList [heart 0 0 1 ''#f472b6'' 1 1, heart 0 0 0 ''#fbcfe8'' 1 1])))"
  by (simp add: sortRenderList_def depthOf_def)

text \<open>
  Claim C5, amended. The sort keeps every item of the render list and orders it ascending
  by \<open>z\<close>, which is descending by depth \<open>1000 - z\<close>: the farthest item first, back to front.
  The items a frame draws are in that order.
\<close>

theorem items_drawn_back_to_front:
  "sorted (map itemZ (sortRenderList renderList)) \<and>
   sorted (rev (map depthOf (sortRenderList renderList))) \<and>
   mset (sortRenderList renderList) = mset renderList \<and>
   sorted (map itemZ (snd (render isLightsOn carPoints r s))) \<and>
   sorted (rev (map depthOf (snd (render isLightsOn carPoints r s))))"
proof -
  have a: "sorted (map itemZ (sortRenderList xs))" for xs
    by (rule sorted_sortRenderList)
  have b: "sorted (map itemZ (filter P (sortRenderList xs)))" for P xs
    using a [of xs] by (simp add: sorted_map sorted_wrt_filter)
  have c: "sorted (map itemZ (snd (render isLightsOn carPoints r s)))"
    unfolding render_def Let_def snd_conv by (rule b)
  show ?thesis
    using a c sorted_rev_depth [OF a] sorted_rev_depth [OF c]
    by (simp add: sortRenderList_def)
qed

text \<open>
  Claim C6. The morph leaves every point that is not glass, balloon or string where it
  is. For those three parts it is the linear interpolation from the centre (0, 50, 0)
  to the base position, with weight \<open>1 - morph\<close> for glass and \<open>morph\<close> for balloon and
  string; weight 1 is the identity and weight 0 is the centre. At \<open>morph = 0\<close> a glass
  point keeps its base position and a balloon or string point is dropped from the frame;
  at \<open>morph = 1\<close> a glass point is dropped and a balloon or string point keeps its base
  position. A dropped point adds nothing to the render list or to the hit-test boxes.
\<close>

theorem morph_scales_roof_and_balloon_towards_centre:
  "(p \<noteq> glass \<and> p \<noteq> balloon \<and> p \<noteq> string \<longrightarrow> morphPoint morph p v = Some v) \<and>
   scaleTowardsCentre k (px, py, pz) =
     ((1 - k) * 0 + k * px, (1 - k) * 50 + k * py, (1 - k) * 0 + k * pz) \<and>
   (p = glass \<and> \<not> 1 - morph < 0.05 \<longrightarrow>
      morphPoint morph p v = Some (scaleTowardsCentre (1 - morph) v)) \<and>
   ((p = balloon \<or> p = string) \<and> \<not> morph < 0.05 \<longrightarrow>
      morphPoint morph p v = Some (scaleTowardsCentre morph v)) \<and>
   scaleTowardsCentre 1 v = v \<and>
   scaleTowardsCentre 0 v = (0, 50, 0) \<and>
   morphPoint 0 glass v = Some v \<and>
   morphPoint 0 balloon v = None \<and> morphPoint 0 string v = None \<and>
   morphPoint 1 glass v = None \<and>
   morphPoint 1 balloon v = Some v \<and> morphPoint 1 string v = Some v \<and>
   (morphPoint (morphRef s) (part q) (nx q, ny q, nz q) = None \<longrightarrow>
      carPointStep isLightsOn s acc q = acc)"
  by (cases v) (auto simp: morphPoint_def carPointStep_def algebra_simps)

theorem morph_scales_roof_and_balloon_towards_centre_witness:
  "morphPoint 0.5 body (10, 20, 30) = Some (10, 20, 30) \<and>
   morphPoint 0.5 glass (10, 20, 30) = Some (5, 35, 15) \<and>
   morphPoint 0.5 balloon (10, 20, 30) = Some (5, 35, 15) \<and>
   morphPoint 0.5 string (10, 20, 30) = Some (5, 35, 15)"
  using morph_scales_roof_and_balloon_towards_centre [of body "0.5" "(10, 20, 30)" "0.5" 10 20 30 initialScene]
    morph_scales_roof_and_balloon_towards_centre [of glass "0.5" "(10, 20, 30)" "0.5" 10 20 30 initialScene]
    morph_scales_roof_and_balloon_towards_centre [of balloon "0.5" "(10, 20, 30)" "0.5" 10 20 30 initialScene]
    morph_scales_roof_and_balloon_towards_centre [of string "0.5" "(10, 20, 30)" "0.5" 10 20 30 initialScene]
  by simp

subsection \<open>Hit-test boxes and clicks\<close>

lemma expand_le:
  "minX (expand sx sy b) \<le> minX b" "maxX b \<le> maxX (expand sx sy b)"
  "minY (expand sx sy b) \<le> minY b" "maxY b \<le> maxY (expand sx sy b)"
  by (simp_all add: expand_def)

lemma holds_expand_both:
  assumes "holds outer inner"
  shows "holds (expand sx sy outer) (expand sx sy inner)"
  using assms by (auto simp: holds_def expand_def)

lemma holds_expand_outer:
  assumes "holds outer inner"
  shows "holds (expand sx sy outer) inner"
  using assms by (auto simp: holds_def expand_def)

lemma hitTestUpdate_holds:
  assumes "holds (car b) (leftDoor b)" "holds (car b) (rightDoor b)"
  shows "holds (car (hitTestUpdate p w b)) (leftDoor (hitTestUpdate p w b)) \<and>
         holds (car (hitTestUpdate p w b)) (rightDoor (hitTestUpdate p w b))"
proof (cases w)
  case (fields wx wy wz)
  show ?thesis
    using assms unfolding fields
    by (simp add: Let_def holds_expand_both holds_expand_outer)
qed

lemma carPointStep_holds:
  assumes "holds (car (fst acc)) (leftDoor (fst acc))" "holds (car (fst acc)) (rightDoor (fst acc))"
  shows "holds (car (fst (carPointStep on s acc p))) (leftDoor (fst (carPointStep on s acc p))) \<and>
         holds (car (fst (carPointStep on s acc p))) (rightDoor (fst (carPointStep on s acc p)))"
  using assms hitTestUpdate_holds [OF assms]
  by (simp add: carPointStep_def Let_def split: option.splits)

lemma foldl_carPointStep_holds:
  assumes "holds (car (fst acc)) (leftDoor (fst acc))" "holds (car (fst acc)) (rightDoor (fst acc))"
  shows "holds (car (fst (foldl (carPointStep on s) acc ps)))
           (leftDoor (fst (foldl (carPointStep on s) acc ps))) \<and>
         holds (car (fst (foldl (carPointStep on s) acc ps)))
           (rightDoor (fst (foldl (carPointStep on s) acc ps)))"
  using assms
proof (induction ps arbitrary: acc)
  case Nil
  then show ?case by simp
next
  case (Cons p ps)
  from carPointStep_holds [OF Cons.prems, of on s p] Cons.IH [of "carPointStep on s acc p"]
  show ?case by simp
qed

lemma holds_inBox:
  assumes "holds outer inner" "inBox 0 inner x y"
  shows "inBox 0 outer x y"
  using assms by (auto simp: holds_def inBox_def)

lemma render_bounds:
  "boundsRef (fst (render on carPoints r s)) =
     fst (foldl (carPointStep on (updateParticles (spawnExhaust on r (animate on s))))
            (resetBounds, []) carPoints)"
  by (simp add: render_def Let_def updateParticles_def spawnExhaust_def animate_def)

text \<open>
  Claim C9. After every frame the car box holds the left-door box and the right-door
  box, so a screen point inside a door box (without margin) is inside the car box.
\<close>

theorem door_boxes_inside_car_box:
  "(let b = boundsRef (fst (render isLightsOn carPoints r s))
    in holds (car b) (leftDoor b) \<and> holds (car b) (rightDoor b) \<and>
       (inBox 0 (leftDoor b) x y \<longrightarrow> inBox 0 (car b) x y) \<and>
       (inBox 0 (rightDoor b) x y \<longrightarrow> inBox 0 (car b) x y))"
proof -
  have "holds (car (fst (resetBounds, []))) (leftDoor (fst (resetBounds, [])))"
    "holds (car (fst (resetBounds, []))) (rightDoor (fst (resetBounds, [])))"
    by (simp_all add: resetBounds_def holds_def)
  from foldl_carPointStep_holds [OF this]
  show ?thesis
    unfolding render_bounds Let_def using holds_inBox by blast
qed

theorem door_boxes_inside_car_box_witness:
  "boundsRef (fst (render False
      [\<lparr> jitterX = 50, jitterY = 20, jitterZ = 0, baseColor = ''#f472b6'', part = door_left,
         nx = 50, ny = 20, nz = 0, sparkleOffset = 0 \<rparr>]
      \<lparr> spawnDraw = 0, zDraw = 0, vxDraw = 0, vyDraw = 0, vzDraw = 0, colorDraw = 0,
        scaleDraw = 0 \<rparr>
      (initialScene\<lparr>angleRef := - 0.005\<rparr>))) =
     \<lparr> leftDoor = \<lparr> minX = 450, maxX = 450, minY = 460, maxY = 460 \<rparr>,
       rightDoor = emptyBounds,
       car = \<lparr> minX = 450, maxX = 450, minY = 460, maxY = 460 \<rparr> \<rparr> \<and>
   inBox 0 \<lparr> minX = 450, maxX = 450, minY = 460, maxY = 460 \<rparr> 450 460"
proof -
  let ?b = "boundsRef (fst (render False
      [\<lparr> jitterX = 50, jitterY = 20, jitterZ = 0, baseColor = ''#f472b6'', part = door_left,
         nx = 50, ny = 20, nz = 0, sparkleOffset = 0 \<rparr>]
      \<lparr> spawnDraw = 0, zDraw = 0, vxDraw = 0, vyDraw = 0, vzDraw = 0, colorDraw = 0,
        scaleDraw = 0 \<rparr>
      (initialScene\<lparr>angleRef := - 0.005\<rparr>)))"
  have b: "?b = \<lparr> leftDoor = \<lparr> minX = 450, maxX = 450, minY = 460, maxY = 460 \<rparr>,
       rightDoor = emptyBounds,
       car = \<lparr> minX = 450, maxX = 450, minY = 460, maxY = 460 \<rparr> \<rparr>"
    by (simp add: render_def Let_def updateParticles_def spawnExhaust_def animate_def
        initialScene_def carPointStep_def morphPoint_def resetBounds_def emptyBounds_def
        expand_def)
  have "inBox 0 (leftDoor ?b) 450 460" unfolding b by (simp add: inBox_def)
  with door_boxes_inside_car_box [of False _ _ _ 450 460] b
  show ?thesis
    unfolding Let_def by (simp add: Let_def)
qed

text \<open>
  Claim C3, as stated, fails: the car box is tested without the margin. With the car box
  spanning 200 to 600 horizontally, a click at (610, 300) lies in the car box grown by
  20 and outside both grown door boxes, yet no engine sound plays and nothing changes.
\<close>

theorem click_near_car_box_is_ignored:
  "inBox 20 \<lparr> minX = 200, maxX = 600, minY = 250, maxY = 450 \<rparr> 610 300 \<and>
   \<not> engineSound (handleClick False 610 300
      (initialScene\<lparr>boundsRef :=
         \<lparr> leftDoor = \<lparr> minX = 300, maxX = 350, minY = 300, maxY = 400 \<rparr>,
           rightDoor = \<lparr> minX = 450, maxX = 500, minY = 300, maxY = 400 \<rparr>,
           car = \<lparr> minX = 200, maxX = 600, minY = 250, maxY = 450 \<rparr> \<rparr>\<rparr>)) \<and>
   afterClick (handleClick False 610 300
      (initialScene\<lparr>boundsRef :=
         \<lparr> leftDoor = \<lparr> minX = 300, maxX = 350, minY = 300, maxY = 400 \<rparr>,
           rightDoor = \<lparr> minX = 450, maxX = 500, minY = 300, maxY = 400 \<rparr>,
           car = \<lparr> minX = 200, maxX = 600, minY = 250, maxY = 450 \<rparr> \<rparr>\<rparr>)) =
     initialScene\<lparr>boundsRef :=
         \<lparr> leftDoor = \<lparr> minX = 300, maxX = 350, minY = 300, maxY = 400 \<rparr>,
           rightDoor = \<lparr> minX = 450, maxX = 500, minY = 300, maxY = 400 \<rparr>,
           car = \<lparr> minX = 200, maxX = 600, minY = 250, maxY = 450 \<rparr> \<rparr>\<rparr>"
  by (simp add: handleClick_def inBox_def Let_def)

text \<open>
  Claim C3, amended. \<open>handleClick\<close> grows the two door boxes by 20 and tests the car box as
  it is, in the order left door, right door, car. A click in the grown left-door box
  flips the left target when the lights are off and plays no engine sound; a click
  outside it and in the grown right-door box does the same for the right target; a click
  in neither plays the engine sound exactly when it is in the car box, and changes
  nothing. So a click that plays the engine sound changes no door target, and with the
  lights on no click changes the scene.
\<close>

theorem click_resolves_to_first_matching_box:
  "(let b = boundsRef s;
        inLeft = inBox 20 (leftDoor b) x y;
        inRight = inBox 20 (rightDoor b) x y;
        out = handleClick isLightsOn x y s
    in (inLeft \<longrightarrow> \<not> engineSound out \<and>
          afterClick out =
            (if isLightsOn then s else s\<lparr>targetLeftDoor := flipped (targetLeftDoor s)\<rparr>)) \<and>
       (\<not> inLeft \<and> inRight \<longrightarrow> \<not> engineSound out \<and>
          afterClick out =
            (if isLightsOn then s else s\<lparr>targetRightDoor := flipped (targetRightDoor s)\<rparr>)) \<and>
       (\<not> inLeft \<and> \<not> inRight \<longrightarrow> afterClick out = s \<and>
          engineSound out = inBox 0 (car b) x y) \<and>
       (engineSound out \<longrightarrow> afterClick out = s) \<and>
       (isLightsOn \<longrightarrow> afterClick out = s))"
  by (auto simp: handleClick_def inBox_def flipped_def Let_def)

theorem click_resolves_to_first_matching_box_witness:
  "inBox 20 \<lparr> minX = 300, maxX = 350, minY = 300, maxY = 400 \<rparr> 290 390 \<and>
   \<not> engineSound (handleClick False 290 390
      (initialScene\<lparr>boundsRef :=
         \<lparr> leftDoor = \<lparr> minX = 300, maxX = 350, minY = 300, maxY = 400 \<rparr>,
           rightDoor = \<lparr> minX = 450, maxX = 500, minY = 300, maxY = 400 \<rparr>,
           car = \<lparr> minX = 200, maxX = 600, minY = 250, maxY = 450 \<rparr> \<rparr>\<rparr>)) \<and>
   targetLeftDoor (afterClick (handleClick False 290 390
      (initialScene\<lparr>boundsRef :=
         \<lparr> leftDoor = \<lparr> minX = 300, maxX = 350, minY = 300, maxY = 400 \<rparr>,
           rightDoor = \<lparr> minX = 450, maxX = 500, minY = 300, maxY = 400 \<rparr>,
           car = \<lparr> minX = 200, maxX = 600, minY = 250, maxY = 450 \<rparr> \<rparr>\<rparr>))) = 1 \<and>
   targetRightDoor (afterClick (handleClick False 290 390
      (initialScene\<lparr>boundsRef :=
         \<lparr> leftDoor = \<lparr> minX = 300, maxX = 350, minY = 300, maxY = 400 \<rparr>,
           rightDoor = \<lparr> minX = 450, maxX = 500, minY = 300, maxY = 400 \<rparr>,
           car = \<lparr> minX = 200, maxX = 600, minY = 250, maxY = 450 \<rparr> \<rparr>\<rparr>))) = 0"
proof -
  let ?s = "initialScene\<lparr>boundsRef :=
         \<lparr> leftDoor = \<lparr> minX = 300, maxX = 350, minY = 300, maxY = 400 \<rparr>,
           rightDoor = \<lparr> minX = 450, maxX = 500, minY = 300, maxY = 400 \<rparr>,
           car = \<lparr> minX = 200, maxX = 600, minY = 250, maxY = 450 \<rparr> \<rparr>\<rparr>"
  have h: "inBox 20 (leftDoor (boundsRef ?s)) 290 390" by (simp add: inBox_def)
  with click_resolves_to_first_matching_box [of ?s 290 390 False]
  have "\<not> engineSound (handleClick False 290 390 ?s)"
    "afterClick (handleClick False 290 390 ?s) = ?s\<lparr>targetLeftDoor := flipped (targetLeftDoor ?s)\<rparr>"
    unfolding Let_def by simp_all
  with h show ?thesis by (simp add: flipped_def initialScene_def)
qed

end
